theory Spec2Isabelle
  imports Main
begin

section \<open>Errors\<close>

text \<open>
  Every \<open>raise\<close> of the sources is a value of this type. The sources raise plain
  \<open>Exception\<close> objects that differ in their message only; one constructor stands for
  each message. The last constructors are the built-in exceptions that escape the
  sources' own handlers.
\<close>

datatype error =
    SourceFieldsError      \<comment> \<open>"Could not pull fields from Source"\<close>
  | JoinFieldsError        \<comment> \<open>"Could not pull fields from Join List"\<close>
  | SourceTableError       \<comment> \<open>"Could not pull source table or name"\<close>
  | JoinInfoError          \<comment> \<open>"Could not pull join information from join list"\<close>
  | SchemaBuildError       \<comment> \<open>"Could not build schema from source or join list"\<close>
  | SchemaEmptyError       \<comment> \<open>"Dataframe Empty When Checking Schema"\<close>
  | SchemaMismatchError    \<comment> \<open>"DataFrame Schema Did Not Match"\<close>
  | QueryEmptyError        \<comment> \<open>"DataFrame Emtpy from SQL Query"\<close>
  | StuckInLoopError       \<comment> \<open>"Script stuck in while loop while cleaning folders"\<close>
  | ContentsNotFoundError string  \<comment> \<open>"Contents not found in Folder List in <key>"\<close>
  | DeleteFailedError      \<comment> \<open>"Failed to delete excess folders"\<close>
  | TypeError              \<comment> \<open>iterating over \<open>None\<close>\<close>
  | UnboundLocalError      \<comment> \<open>a handler formats the name \<open>e\<close>, which is not bound there\<close>
  | KeyError
  | ValueError
  | IndexError

section \<open>The query compiler (rds_query_utils.py)\<close>

subsection \<open>Data\<close>

text \<open>
  The source descriptor and the join items are Python dictionaries read by key. A key that
  is absent is \<open>None\<close> here, so that each \<open>KeyError\<close> of the source is a branch of the
  model. One element of \<open>fields\<close> is a dictionary from a source column to an output name;
  it is kept as the list of its items in insertion order (the keys of one dictionary are
  distinct).
\<close>

type_synonym field_map = "(string \<times> string) list"

record source =
  src_table :: "string option"
  src_name :: "string option"
  src_fields :: "field_map list option"
  src_project :: "int option"
  src_order :: "string option"

record join_item =
  ji_name :: "string option"
  ji_single_or_repeat :: "string option"
  ji_data_source :: "string option"
  ji_question_id :: "int option"
  ji_fields :: "field_map list option"

subsection \<open>Formatting integers\<close>

text \<open>An f-string renders an integer in decimal, with a minus sign when negative.\<close>

fun str_nat :: "nat \<Rightarrow> string" where
  "str_nat n =
     (if n < 10 then [''0123456789'' ! n]
      else str_nat (n div 10) @ [''0123456789'' ! (n mod 10)])"

declare str_nat.simps [simp del]

definition str_int :: "int \<Rightarrow> string" where
  "str_int i = (if i < 0 then ''-'' @ str_nat (nat (- i)) else str_nat (nat i))"

subsection \<open>build_schema\<close>

text \<open>The two inner loops of \<open>build_schema\<close>: every output name is appended to the list.\<close>

fun schema_add_items :: "field_map \<Rightarrow> string list \<Rightarrow> string list" where
  "schema_add_items [] schema_lst = schema_lst"
| "schema_add_items ((tn, jn) # rest) schema_lst = schema_add_items rest (schema_lst @ [jn])"

fun schema_add_fields :: "field_map list \<Rightarrow> string list \<Rightarrow> string list" where
  "schema_add_fields [] schema_lst = schema_lst"
| "schema_add_fields (field # rest) schema_lst =
     schema_add_fields rest (schema_add_items field schema_lst)"

text \<open>The loop over the join list; \<open>item['fields']\<close> raises when the key is absent.\<close>

fun schema_add_joins :: "join_item list \<Rightarrow> string list \<Rightarrow> error + string list" where
  "schema_add_joins [] schema_lst = Inr schema_lst"
| "schema_add_joins (item # rest) schema_lst =
     (case ji_fields item of
        None \<Rightarrow> Inl SchemaBuildError
      | Some flds \<Rightarrow> schema_add_joins rest (schema_add_fields flds schema_lst))"

definition build_schema ::
  "source option \<Rightarrow> join_item list option \<Rightarrow> string list option \<Rightarrow> string list option
     \<Rightarrow> error + string list" where
  "build_schema source join_list schema exclude =
     (case
        (if schema = None \<and> source \<noteq> None \<and> join_list \<noteq> None then
           (case src_fields (the source) of
              None \<Rightarrow> Inl SchemaBuildError
            | Some flds \<Rightarrow> schema_add_joins (the join_list) (schema_add_fields flds []))
         else if schema \<noteq> None \<and> source = None \<and> join_list = None then Inr (the schema)
         else Inr [])
      of
        Inl e \<Rightarrow> Inl e
      | Inr schema_lst \<Rightarrow>
          (case exclude of
             None \<Rightarrow> Inr schema_lst
           | Some ex \<Rightarrow> Inr (filter (\<lambda>field. field \<notin> set ex) schema_lst)))"

subsection \<open>build_query\<close>

text \<open>The select list: the fields of the source, each line ending in a comma.\<close>

fun add_source_items :: "source \<Rightarrow> field_map \<Rightarrow> string \<Rightarrow> error + string" where
  "add_source_items src [] query = Inr query"
| "add_source_items src ((tn, jn) # rest) query =
     (case src_name src of
        None \<Rightarrow> Inl SourceFieldsError
      | Some name \<Rightarrow>
          add_source_items src rest
            (query @ ''    '' @ name @ ''.'' @ tn @ '' AS '' @ jn @ '',\<newline>''))"

fun add_source_fields :: "source \<Rightarrow> field_map list \<Rightarrow> string \<Rightarrow> error + string" where
  "add_source_fields src [] query = Inr query"
| "add_source_fields src (field # rest) query =
     (case add_source_items src field query of
        Inl e \<Rightarrow> Inl e
      | Inr query' \<Rightarrow> add_source_fields src rest query')"

text \<open>
  The select list: the fields of the join items. The test \<open>field == item['fields'][-1]\<close>
  compares dictionaries, which are equal when they hold the same items in any order; every
  item of a dictionary that passes the test is written without the comma.
\<close>

definition dict_eq :: "field_map \<Rightarrow> field_map \<Rightarrow> bool" where
  "dict_eq d1 d2 = (set d1 = set d2)"

fun add_join_items :: "join_item \<Rightarrow> bool \<Rightarrow> field_map \<Rightarrow> string \<Rightarrow> error + string" where
  "add_join_items item final [] query = Inr query"
| "add_join_items item final ((tn, jn) # rest) query =
     (case ji_name item of
        None \<Rightarrow> Inl JoinFieldsError
      | Some name \<Rightarrow>
          add_join_items item final rest
            (if final then query @ ''    '' @ name @ ''.'' @ tn @ '' AS '' @ jn @ ''\<newline>''
             else query @ ''    '' @ name @ ''.'' @ tn @ '' AS '' @ jn @ '',\<newline>''))"

fun add_item_fields ::
  "nat \<Rightarrow> nat \<Rightarrow> join_item \<Rightarrow> field_map list \<Rightarrow> field_map list \<Rightarrow> string \<Rightarrow> error + string" where
  "add_item_fields index len item all_fields [] query = Inr query"
| "add_item_fields index len item all_fields (field # rest) query =
     (case add_join_items item
             (int index = int len - 1 \<and> dict_eq field (last all_fields)) field query of
        Inl e \<Rightarrow> Inl e
      | Inr query' \<Rightarrow> add_item_fields index len item all_fields rest query')"

fun add_join_fields :: "nat \<Rightarrow> nat \<Rightarrow> join_item list \<Rightarrow> string \<Rightarrow> error + string" where
  "add_join_fields index len [] query = Inr query"
| "add_join_fields index len (item # rest) query =
     (case ji_fields item of
        None \<Rightarrow> Inl JoinFieldsError
      | Some flds \<Rightarrow>
          (case add_item_fields index len item flds flds query of
             Inl e \<Rightarrow> Inl e
           | Inr query' \<Rightarrow> add_join_fields (Suc index) len rest query'))"

text \<open>The \<open>FROM\<close> clause.\<close>

definition add_source :: "source \<Rightarrow> string \<Rightarrow> error + string" where
  "add_source src query =
     (case (src_table src, src_name src) of
        (Some table, Some name) \<Rightarrow>
          Inr (query @ ''\<newline>FROM\<newline>'' @ ''    '' @ table @ '' '' @ name @ ''\<newline>'')
      | _ \<Rightarrow> Inl SourceTableError)"

text \<open>
  One round of the loop over the join list. The state is the query text and \<open>join_count\<close>.
  The first item joins through \<open>initial_join_answers\<close>, every later one through a numbered
  alias. An item whose \<open>single_or_repeat\<close> is neither \<open>SINGLE\<close> nor \<open>REPEATING\<close> adds
  nothing.
\<close>

definition join_step :: "nat \<Rightarrow> join_item \<Rightarrow> string \<times> nat \<Rightarrow> error + string \<times> nat" where
  "join_step index item st =
     (let (query, join_count) = st;
          (data_conn, join_count') =
            (if index = 0 then (''initial_join_answers'', join_count)
             else (''join_answers_'' @ str_nat join_count, join_count + 1))
      in case ji_single_or_repeat item of
           None \<Rightarrow> Inl JoinInfoError
         | Some sr \<Rightarrow>
             if sr = ''SINGLE'' then
               (case (ji_question_id item, ji_data_source item, ji_name item) of
                  (Some question_id, Some data_source, Some name) \<Rightarrow>
                    Inr (query
                         @ ''\<newline>LEFT JOIN application_data_answer '' @ data_conn
                         @ '' ON app.id = '' @ data_conn @ ''.application_id AND ''
                         @ data_conn @ ''.question_id = '' @ str_int question_id
                         @ ''\<newline>LEFT JOIN '' @ data_source @ '' '' @ name @ '' ON ''
                         @ data_conn @ ''.id = '' @ name @ ''.answer_ptr_id\<newline>'',
                         join_count')
                | _ \<Rightarrow> Inl JoinInfoError)
             else if sr = ''REPEATING'' then
               (case (ji_question_id item, ji_data_source item, ji_name item) of
                  (Some question_id, Some data_source, Some name) \<Rightarrow>
                    Inr (query
                         @ ''\<newline>LEFT JOIN application_data_answer '' @ data_conn
                         @ '' ON initial_join_answers.repeating_answer_section_id = ''
                         @ data_conn @ ''.repeating_answer_section_id AND ''
                         @ data_conn @ ''.question_id = '' @ str_int question_id
                         @ ''\<newline>LEFT JOIN '' @ data_source @ '' '' @ name @ '' ON ''
                         @ data_conn @ ''.id = '' @ name @ ''.answer_ptr_id\<newline>'',
                         join_count')
                | _ \<Rightarrow> Inl JoinInfoError)
             else Inr (query, join_count'))"

fun add_joins :: "nat \<Rightarrow> join_item list \<Rightarrow> string \<times> nat \<Rightarrow> error + string \<times> nat" where
  "add_joins index [] st = Inr st"
| "add_joins index (item # rest) st =
     (case join_step index item st of
        Inl e \<Rightarrow> Inl e
      | Inr st' \<Rightarrow> add_joins (Suc index) rest st')"

text \<open>
  The project filter and the ordering. Their handlers are bare \<open>except:\<close> clauses that
  format the name \<open>e\<close>; no handler has bound it when they run, so a missing key ends in
  Python's own error for the unbound name.
\<close>

definition add_filter :: "source \<Rightarrow> string \<Rightarrow> error + string" where
  "add_filter src query =
     (case (src_name src, src_project src) of
        (Some name, Some project) \<Rightarrow>
          Inr (query @ ''\<newline> WHERE \<newline>'' @ ''    '' @ name @ ''.project_id = '' @ str_int project)
      | _ \<Rightarrow> Inl UnboundLocalError)"

definition add_order :: "source \<Rightarrow> string \<Rightarrow> error + string" where
  "add_order src query =
     (case (src_name src, src_order src) of
        (Some name, Some ord) \<Rightarrow>
          Inr (query @ ''\<newline> ORDER BY\<newline>'' @ name @ ''.'' @ ord @ '';'')
      | _ \<Rightarrow> Inl UnboundLocalError)"

text \<open>The text built from a descriptor pair, before it is re-decoded.\<close>

definition assemble_query :: "source \<Rightarrow> join_item list \<Rightarrow> error + string" where
  "assemble_query src join_list =
     (case (case src_fields src of
              None \<Rightarrow> Inl SourceFieldsError
            | Some flds \<Rightarrow> add_source_fields src flds ''SELECT\<newline>'') of
        Inl e \<Rightarrow> Inl e
      | Inr q1 \<Rightarrow>
     (case add_join_fields 0 (length join_list) join_list q1 of
        Inl e \<Rightarrow> Inl e
      | Inr q2 \<Rightarrow>
     (case add_source src q2 of
        Inl e \<Rightarrow> Inl e
      | Inr q3 \<Rightarrow>
     (case add_joins 0 join_list (q3, 1) of
        Inl e \<Rightarrow> Inl e
      | Inr (q4, join_count) \<Rightarrow>
     (case add_filter src q4 of
        Inl e \<Rightarrow> Inl e
      | Inr q5 \<Rightarrow> add_order src q5)))))"

text \<open>
  \<open>build_query\<close>. The result \<open>Inr None\<close> is Python's \<open>None\<close>. The last step of the
  descriptor branch, \<open>codecs.decode(query.encode(), 'unicode_escape')\<close>, belongs to the
  Python library; it is the parameter \<open>unicode_escape\<close>, which may raise.
\<close>

definition build_query ::
  "(string \<Rightarrow> error + string) \<Rightarrow> source option \<Rightarrow> join_item list option \<Rightarrow> string option
     \<Rightarrow> error + string option" where
  "build_query unicode_escape source join_list query =
     (if query = None \<and> source \<noteq> None \<and> join_list \<noteq> None then
        (case assemble_query (the source) (the join_list) of
           Inl e \<Rightarrow> Inl e
         | Inr text \<Rightarrow>
             (case unicode_escape text of
                Inl e \<Rightarrow> Inl e
              | Inr query' \<Rightarrow> Inr (Some query')))
      else if query \<noteq> None \<and> source = None \<and> join_list = None then Inr query
      else Inr query)"

section \<open>Validation and deduplication (rds_processor.py)\<close>

subsection \<open>Tables\<close>

text \<open>
  A DataFrame is its column labels and its rows, in order. \<open>df.empty\<close> holds when an axis
  has length zero. The three pandas operations the source calls are written out from their
  documented behaviour: \<open>duplicated()\<close> marks every row that repeats an earlier row,
  \<open>data[mask]\<close> keeps the rows the mask marks, and \<open>drop_duplicates()\<close> keeps the rows
  that \<open>duplicated()\<close> does not mark.
\<close>

record 'v table =
  columns :: "string list"
  rows :: "'v list list"

definition df_empty :: "'v table \<Rightarrow> bool" where
  "df_empty t = (columns t = [] \<or> rows t = [])"

fun duplicated_from :: "'v list list \<Rightarrow> 'v list list \<Rightarrow> bool list" where
  "duplicated_from seen [] = []"
| "duplicated_from seen (r # rs) = (r \<in> set seen) # duplicated_from (seen @ [r]) rs"

definition duplicated :: "'v table \<Rightarrow> bool list" where
  "duplicated t = duplicated_from [] (rows t)"

definition select_rows :: "'v table \<Rightarrow> bool list \<Rightarrow> 'v table" where
  "select_rows t marks = t\<lparr>rows := map fst (filter snd (zip (rows t) marks))\<rparr>"

definition drop_duplicates :: "'v table \<Rightarrow> 'v table" where
  "drop_duplicates t = select_rows t (map Not (duplicated t))"

subsection \<open>The RDS object\<close>

record 'v rds =
  rds_query :: "string option"
  rds_schema :: "string list option"
  rds_duplicates :: "'v table"
  rds_archive :: "(string \<times> 'v table) list"
  rds_fields_missing :: "string list"
  rds_df :: "'v table"

text \<open>The loop of \<open>check_schema\<close> over the schema, on the pair of \<open>check\<close> and
  \<open>self.fields_missing\<close>.\<close>

fun check_fields :: "string list \<Rightarrow> string list \<Rightarrow> bool \<times> string list \<Rightarrow> bool \<times> string list" where
  "check_fields cols [] st = st"
| "check_fields cols (field # rest) (check, fields_missing) =
     check_fields cols rest
       (if field \<notin> set cols then (False, fields_missing @ [field])
        else (check, fields_missing))"

definition check_schema :: "'v rds \<Rightarrow> 'v table \<Rightarrow> (error + bool) \<times> 'v rds" where
  "check_schema self df =
     (if \<not> df_empty df then
        (case rds_schema self of
           None \<Rightarrow> (Inl TypeError, self)
         | Some schema \<Rightarrow>
             (let (check, fields_missing) =
                    check_fields (columns df) schema (True, rds_fields_missing self)
              in (Inr check, self\<lparr>rds_fields_missing := fields_missing\<rparr>)))
      else (Inl SchemaEmptyError, self))"

text \<open>
  \<open>query_to_df\<close>. The cursor is outside the repository: \<open>rds_sql_pull\<close> is a parameter
  that gives the table of a query text, or raises. The duplicates are read from the table
  after \<open>drop_duplicates()\<close> has replaced it.
\<close>

definition query_to_df ::
  "(string \<Rightarrow> error + 'v table) \<Rightarrow> 'v rds \<Rightarrow> (error + 'v table) \<times> 'v rds" where
  "query_to_df rds_sql_pull self =
     (if rds_query self \<noteq> None \<and> rds_schema self \<noteq> None then
        (case rds_sql_pull (the (rds_query self)) of
           Inl e \<Rightarrow> (Inl e, self)
         | Inr data \<Rightarrow>
             if \<not> df_empty data then
               (case check_schema self data of
                  (Inl e, self1) \<Rightarrow> (Inl e, self1)
                | (Inr True, self1) \<Rightarrow>
                    (let data' = drop_duplicates data;
                         self2 = self1\<lparr>rds_duplicates := select_rows data' (duplicated data')\<rparr>;
                         self3 = self2\<lparr>rds_df := data'\<rparr>;
                         self4 = self3\<lparr>rds_archive :=
                                   [(''Duplicates'', rds_duplicates self3), (''Data'', rds_df self3)]\<rparr>
                     in (Inr (rds_df self4), self4))
                | (Inr False, self1) \<Rightarrow> (Inl SchemaMismatchError, self1))
             else (Inl QueryEmptyError, self))
      else (Inl QueryEmptyError, self))"

section \<open>Archive rotation (s3_bucket_util.py)\<close>

subsection \<open>The object-store client\<close>

text \<open>
  The boto3 client is outside the repository; it is a parameter. The state \<open>'s\<close> is the
  content of the bucket. \<open>list_objects_v2\<close> takes the state, the \<open>Prefix\<close> and the
  optional \<open>Delimiter\<close> and gives a response in which the keys \<open>Contents\<close> and
  \<open>CommonPrefixes\<close> may be absent; an object is its key and its \<open>LastModified\<close> time.
  \<open>delete_object\<close> gives the new state, or \<open>None\<close> when the call raises.
\<close>

record response =
  Contents :: "(string \<times> nat) list option"
  CommonPrefixes :: "string list option"

record 's s3_client =
  list_objects_v2 :: "'s \<Rightarrow> string \<Rightarrow> string option \<Rightarrow> response"
  delete_object :: "'s \<Rightarrow> string \<Rightarrow> 's option"

subsection \<open>monitor_and_maintain_archive_limit\<close>

definition max_iterations :: nat where
  "max_iterations = 150"

text \<open>Python's \<open>min(xs, key=...)\<close>: the first element with the least key; it raises on
  an empty list.\<close>

fun min_from :: "string \<times> nat \<Rightarrow> (string \<times> nat) list \<Rightarrow> string \<times> nat" where
  "min_from best [] = best"
| "min_from best (x # xs) = min_from (if snd x < snd best then x else best) xs"

definition py_min :: "(string \<times> nat) list \<Rightarrow> error + string \<times> nat" where
  "py_min xs = (case xs of [] \<Rightarrow> Inl ValueError | x # rest \<Rightarrow> Inr (min_from x rest))"

text \<open>The loop over the sub-folders that fills \<open>folder_dates\<close>.\<close>

fun collect_folder_dates ::
  "'s s3_client \<Rightarrow> 's \<Rightarrow> string list \<Rightarrow> (string \<times> nat) list \<Rightarrow> error + (string \<times> nat) list" where
  "collect_folder_dates s3 st [] folder_dates = Inr folder_dates"
| "collect_folder_dates s3 st (folder_key # rest) folder_dates =
     (case Contents (list_objects_v2 s3 st folder_key None) of
        None \<Rightarrow> Inl (ContentsNotFoundError folder_key)
      | Some objects \<Rightarrow>
          (case py_min objects of
             Inl e \<Rightarrow> Inl e
           | Inr oldest_object \<Rightarrow>
               collect_folder_dates s3 st rest (folder_dates @ [(folder_key, snd oldest_object)])))"

text \<open>
  The while loop. \<open>folder_count\<close> is always the length of \<open>subfolders\<close>. The result is
  the outcome, the state of the bucket and the keys passed to \<open>delete_object\<close> so far, in
  order; an exception leaves the bucket as the calls before it made it. \<open>sort\<close> is stable,
  as \<open>sort_key\<close> is.
\<close>

function clean_loop ::
  "'s s3_client \<Rightarrow> string \<Rightarrow> int \<Rightarrow> string list \<Rightarrow> nat \<Rightarrow> 's \<Rightarrow> string list
     \<Rightarrow> (error + unit) \<times> 's \<times> string list" where
  "clean_loop s3 folder_prefix limit subfolders iteration_counter st deleted =
     (if int (length subfolders) > limit then
        (if iteration_counter + 1 > max_iterations then (Inl StuckInLoopError, st, deleted)
         else
           (case collect_folder_dates s3 st subfolders [] of
              Inl e \<Rightarrow> (Inl e, st, deleted)
            | Inr folder_dates \<Rightarrow>
                (case sort_key snd folder_dates of
                   [] \<Rightarrow> (Inl IndexError, st, deleted)
                 | oldest # _ \<Rightarrow>
                     (case delete_object s3 st (fst oldest) of
                        None \<Rightarrow> (Inl DeleteFailedError, st, deleted)
                      | Some st' \<Rightarrow>
                          (case CommonPrefixes (list_objects_v2 s3 st' folder_prefix (Some ''/'')) of
                             None \<Rightarrow> (Inl KeyError, st', deleted @ [fst oldest])
                           | Some subfolders' \<Rightarrow>
                               clean_loop s3 folder_prefix limit subfolders' (iteration_counter + 1)
                                 st' (deleted @ [fst oldest]))))))
      else (Inr (), st, deleted))"
  by pat_completeness auto
termination
  by (relation "measure (\<lambda>(s3, folder_prefix, limit, subfolders, iteration_counter, st, deleted).
        Suc max_iterations - iteration_counter)") auto

declare clean_loop.simps [simp del]

definition monitor_and_maintain_archive_limit ::
  "'s s3_client \<Rightarrow> string \<Rightarrow> string \<Rightarrow> int \<Rightarrow> 's \<Rightarrow> (error + unit) \<times> 's \<times> string list" where
  "monitor_and_maintain_archive_limit s3 project_folder archive_folder limit st =
     (let folder_prefix = project_folder @ archive_folder
      in case CommonPrefixes (list_objects_v2 s3 st folder_prefix (Some ''/'')) of
           None \<Rightarrow> (Inr (), st, [])
         | Some subfolders \<Rightarrow> clean_loop s3 folder_prefix limit subfolders 0 st [])"

section \<open>Inputs from query_package.py\<close>

text \<open>
  \<open>build_query_package\<close> fixes the source descriptor of every package the repository
  builds; the pair stands for the dictionary with the keys \<open>source\<close> and \<open>join_list\<close>.
  \<open>example_join_list\<close> is the example query of the same file.
\<close>

definition build_query_package :: "int \<Rightarrow> join_item list \<Rightarrow> source \<times> join_item list" where
  "build_query_package project_val questions =
     (\<lparr>src_table = Some ''applications_application'',
       src_name = Some ''app'',
       src_fields = Some [[(''application_number'', ''application_number''),
                           (''created_at'', ''created_at'')]],
       src_project = Some project_val,
       src_order = Some ''id''\<rparr>,
      questions)"

definition example_join_list :: "join_item list" where
  "example_join_list =
     [\<lparr>ji_name = Some ''hotel_name'', ji_single_or_repeat = Some ''SINGLE'',
       ji_data_source = Some ''application_data_textboxanswer'', ji_question_id = Some 1015,
       ji_fields = Some [[(''value'', ''hotel_name'')]]\<rparr>,
      \<lparr>ji_name = Some ''hotel_address'', ji_single_or_repeat = Some ''REPEATING'',
       ji_data_source = Some ''application_data_addressanswer'', ji_question_id = Some 1016,
       ji_fields = Some [[(''line1'', ''hotel_address_line_1''), (''line2'', ''hotel_address_line_2''),
                          (''city'', ''hotel_city''), (''state'', ''hotel_state''),
                          (''zip'', ''hotel_zip'')]]\<rparr>,
      \<lparr>ji_name = Some ''hotel_status'', ji_single_or_repeat = Some ''REPEATING'',
       ji_data_source = Some ''application_data_singleselectanswer'', ji_question_id = Some 1013,
       ji_fields = Some [[(''value'', ''hotel_status'')]]\<rparr>,
      \<lparr>ji_name = Some ''license_in'', ji_single_or_repeat = Some ''REPEATING'',
       ji_data_source = Some ''application_data_dateanswer'', ji_question_id = Some 1021,
       ji_fields = Some [[(''value'', ''license_in'')]]\<rparr>,
      \<lparr>ji_name = Some ''license_out'', ji_single_or_repeat = Some ''REPEATING'',
       ji_data_source = Some ''application_data_dateanswer'', ji_question_id = Some 1022,
       ji_fields = Some [[(''value'', ''license_out'')]]\<rparr>,
      \<lparr>ji_name = Some ''total_in_household'', ji_single_or_repeat = Some ''SINGLE'',
       ji_data_source = Some ''application_data_numberanswer'', ji_question_id = Some 596,
       ji_fields = Some [[(''value'', ''total_in_household'')]]\<rparr>,
      \<lparr>ji_name = Some ''active_bookings'', ji_single_or_repeat = Some ''SINGLE'',
       ji_data_source = Some ''application_data_numberanswer'', ji_question_id = Some 1010,
       ji_fields = Some [[(''value'', ''active_bookings'')]]\<rparr>,
      \<lparr>ji_name = Some ''pathway_determination'', ji_single_or_repeat = Some ''SINGLE'',
       ji_data_source = Some ''application_data_singleselectanswer'', ji_question_id = Some 632,
       ji_fields = Some [[(''value'', ''pathway_determination'')]]\<rparr>]"

text \<open>
  A source descriptor under another alias, with one field, and one \<open>SINGLE\<close> item with
  question 10 and the field \<open>value \<rightarrow> x\<close>.
\<close>

definition aliased_source :: source where
  "aliased_source =
     \<lparr>src_table = Some ''applications_application'', src_name = Some ''a'',
      src_fields = Some [[(''application_number'', ''application_number'')]],
      src_project = Some 34, src_order = Some ''id''\<rparr>"

definition single_item :: join_item where
  "single_item =
     \<lparr>ji_name = Some ''hotel_name'', ji_single_or_repeat = Some ''SINGLE'',
      ji_data_source = Some ''application_data_textboxanswer'', ji_question_id = Some 10,
      ji_fields = Some [[(''value'', ''x'')]]\<rparr>"

section \<open>What the specification says\<close>

subsection \<open>The expected schema\<close>

text \<open>
  The expected schema is the concatenation, source first and then the join items in their
  order, of every declared output name; its length is the number of declared fields.
\<close>

definition output_names :: "field_map list \<Rightarrow> string list" where
  "output_names flds = concat (map (map snd) flds)"

definition declared_schema :: "source \<Rightarrow> join_item list \<Rightarrow> string list" where
  "declared_schema src join_list =
     output_names (the (src_fields src))
     @ concat (map (\<lambda>item. output_names (the (ji_fields item))) join_list)"

definition declared_count :: "source \<Rightarrow> join_item list \<Rightarrow> nat" where
  "declared_count src join_list =
     sum_list (map length (the (src_fields src)))
     + sum_list (map (\<lambda>item. sum_list (map length (the (ji_fields item)))) join_list)"

subsection \<open>The joins of a repeating question\<close>

text \<open>
  The bridge of the first join item has a fixed name, every later item has a numbered
  one. A repeating item joins the answer-header table on the repeating section of the
  initial bridge and on its question, and then its typed answer table on the bridge.
\<close>

definition bridge_alias :: "nat \<Rightarrow> string" where
  "bridge_alias index =
     (if index = 0 then ''initial_join_answers'' else ''join_answers_'' @ str_nat index)"

definition repeating_header_join :: "string \<Rightarrow> int \<Rightarrow> string" where
  "repeating_header_join bridge question_id =
     ''\<newline>LEFT JOIN application_data_answer '' @ bridge
     @ '' ON initial_join_answers.repeating_answer_section_id = ''
     @ bridge @ ''.repeating_answer_section_id AND ''
     @ bridge @ ''.question_id = '' @ str_int question_id"

definition typed_answer_join :: "string \<Rightarrow> string \<Rightarrow> string \<Rightarrow> string" where
  "typed_answer_join bridge data_source name =
     ''\<newline>LEFT JOIN '' @ data_source @ '' '' @ name @ '' ON ''
     @ bridge @ ''.id = '' @ name @ ''.answer_ptr_id\<newline>''"

subsection \<open>Complete descriptors\<close>

text \<open>
  A source descriptor or a join item is complete when every attribute of the data model
  is present in it.
\<close>

definition complete_source :: "source \<Rightarrow> bool" where
  "complete_source src =
     (src_table src \<noteq> None \<and> src_name src \<noteq> None \<and> src_fields src \<noteq> None
      \<and> src_project src \<noteq> None \<and> src_order src \<noteq> None)"

definition complete_item :: "join_item \<Rightarrow> bool" where
  "complete_item item =
     (ji_name item \<noteq> None \<and> ji_single_or_repeat item \<noteq> None \<and> ji_data_source item \<noteq> None
      \<and> ji_question_id item \<noteq> None \<and> ji_fields item \<noteq> None)"

subsection \<open>Rotation\<close>

text \<open>
  The age of a sub-folder is the \<open>LastModified\<close> time of its oldest object.
  \<open>earliest_first age remaining deleted\<close> holds when each key of \<open>deleted\<close> is, at its
  turn, a remaining sub-folder that no remaining sub-folder is older than.
\<close>

definition oldest_time :: "'s s3_client \<Rightarrow> 's \<Rightarrow> string \<Rightarrow> nat" where
  "oldest_time s3 st key = Min (snd ` set (the (Contents (list_objects_v2 s3 st key None))))"

fun earliest_first :: "(string \<Rightarrow> nat) \<Rightarrow> string list \<Rightarrow> string list \<Rightarrow> bool" where
  "earliest_first age remaining [] = True"
| "earliest_first age remaining (key # rest) =
     (key \<in> set remaining \<and> (\<forall>other\<in>set remaining. age key \<le> age other)
      \<and> earliest_first age (remove1 key remaining) rest)"

text \<open>
  A store reflects deletions, on the states that \<open>I\<close> holds of, when the listing under
  the prefix gives distinct sub-folders, each with objects in it, and, while there are more
  sub-folders than the limit, deleting the key of a sub-folder succeeds and takes that
  sub-folder out of the next listing: when other sub-folders remain, the next listing
  gives exactly those and their objects are as they were; when none remains, the next
  listing has no \<open>CommonPrefixes\<close> or an empty one.
\<close>

definition reflects_deletions :: "'s s3_client \<Rightarrow> string \<Rightarrow> int \<Rightarrow> ('s \<Rightarrow> bool) \<Rightarrow> bool" where
  "reflects_deletions s3 folder_prefix limit I =
     (\<forall>st. I st \<longrightarrow>
        (\<exists>subfolders.
           CommonPrefixes (list_objects_v2 s3 st folder_prefix (Some ''/'')) = Some subfolders
           \<and> distinct subfolders
           \<and> (\<forall>key\<in>set subfolders. \<exists>objs.
                 Contents (list_objects_v2 s3 st key None) = Some objs \<and> objs \<noteq> [])
           \<and> (limit < int (length subfolders) \<longrightarrow>
                (\<forall>key\<in>set subfolders. \<exists>st'.
                   delete_object s3 st key = Some st'
                   \<and> (remove1 key subfolders \<noteq> [] \<longrightarrow>
                        I st'
                        \<and> CommonPrefixes (list_objects_v2 s3 st' folder_prefix (Some ''/''))
                            = Some (remove1 key subfolders)
                        \<and> (\<forall>other\<in>set subfolders. other \<noteq> key \<longrightarrow>
                              Contents (list_objects_v2 s3 st' other None)
                              = Contents (list_objects_v2 s3 st other None)))
                   \<and> (remove1 key subfolders = [] \<longrightarrow>
                        CommonPrefixes (list_objects_v2 s3 st' folder_prefix (Some ''/'')) = None
                        \<or> CommonPrefixes (list_objects_v2 s3 st' folder_prefix (Some ''/''))
                            = Some [])))))"

text \<open>
  The listing of a store never drops to the limit, on the states that \<open>I\<close> holds of, when
  it always gives more sub-folders than the limit, each with objects in it, and every
  deletion succeeds.
\<close>

definition never_drops :: "'s s3_client \<Rightarrow> string \<Rightarrow> int \<Rightarrow> ('s \<Rightarrow> bool) \<Rightarrow> bool" where
  "never_drops s3 folder_prefix limit I =
     (\<forall>st. I st \<longrightarrow>
        (\<exists>subfolders.
           CommonPrefixes (list_objects_v2 s3 st folder_prefix (Some ''/'')) = Some subfolders
           \<and> subfolders \<noteq> [] \<and> limit < int (length subfolders)
           \<and> (\<forall>key\<in>set subfolders. \<exists>objs.
                 Contents (list_objects_v2 s3 st key None) = Some objs \<and> objs \<noteq> [])
           \<and> (\<forall>key\<in>set subfolders. \<exists>st'. delete_object s3 st key = Some st' \<and> I st')))"

subsection \<open>Two object stores\<close>

text \<open>
  \<open>folder_store\<close> keeps the sub-folders under the prefix in listing order, each with
  its objects; a listing with no sub-folder has no \<open>CommonPrefixes\<close>, a sub-folder with no
  object has no \<open>Contents\<close>, and deleting the key of a sub-folder removes it.
  \<open>archive_of n\<close> is an archive of \<open>n\<close> sub-folders with one object each.
  \<open>stale_store\<close> counts the deletions and lists the same two sub-folders whatever was
  deleted.
\<close>

type_synonym folders = "(string \<times> (string \<times> nat) list) list"

definition folder_store :: "folders s3_client" where
  "folder_store =
     \<lparr>list_objects_v2 = (\<lambda>st prefix delimiter.
        case delimiter of
          Some d \<Rightarrow> \<lparr>Contents = None,
                     CommonPrefixes = (if st = [] then None else Some (map fst st))\<rparr>
        | None \<Rightarrow> \<lparr>Contents = (case map_of st prefix of
                                   None \<Rightarrow> None
                                 | Some objs \<Rightarrow> if objs = [] then None else Some objs),
                    CommonPrefixes = None\<rparr>),
      delete_object = (\<lambda>st key. Some (filter (\<lambda>f. fst f \<noteq> key) st))\<rparr>"

definition well_formed_folders :: "folders \<Rightarrow> bool" where
  "well_formed_folders st = (st \<noteq> [] \<and> distinct (map fst st) \<and> (\<forall>f\<in>set st. snd f \<noteq> []))"

definition archive_of :: "nat \<Rightarrow> folders" where
  "archive_of n = map (\<lambda>i. (replicate (Suc i) CHR ''a'' @ ''/'', [(''data.csv'', i)])) [0..<n]"

definition stale_store :: "nat s3_client" where
  "stale_store =
     \<lparr>list_objects_v2 = (\<lambda>st prefix delimiter.
        case delimiter of
          Some d \<Rightarrow> \<lparr>Contents = None, CommonPrefixes = Some [''a/'', ''b/'']\<rparr>
        | None \<Rightarrow> \<lparr>Contents = Some [(prefix @ ''Duplicates.csv'', 7)], CommonPrefixes = None\<rparr>),
      delete_object = (\<lambda>st key. Some (Suc st))\<rparr>"

section \<open>Properties of the query compiler\<close>

subsection \<open>A literal query beside a descriptor pair\<close>

text \<open>
  Claim C2 says that \<open>build_query\<close> rejects a call that supplies a literal query
  together with a source descriptor and a join list. It does not: neither branch of
  \<open>build_query\<close> applies, and the literal query comes back as it was given.
\<close>

theorem build_query_returns_query_beside_descriptor:
  "build_query Inr (Some aliased_source) (Some [single_item]) (Some ''SELECT 1;'')
     = Inr (Some ''SELECT 1;'')"
  by (simp add: build_query_def)

text \<open>
  Claim C2, amended: when a literal query, a source descriptor and a join list are all
  supplied, \<open>build_query\<close> returns the literal query unchanged and raises nothing; the
  descriptor pair is not read.
\<close>

theorem build_query_both_supplied:
  "build_query unicode_escape (Some src) (Some join_list) (Some q) = Inr (Some q)"
  by (simp add: build_query_def)

subsection \<open>Neither a descriptor pair nor a literal query\<close>

text \<open>
  Claim C6 says that \<open>build_query\<close> raises when it is given neither a descriptor pair
  nor a literal query. It returns \<open>None\<close>.
\<close>

theorem build_query_returns_None_for_nothing:
  "build_query Inr None None None = Inr None \<and> \<not> isl (build_query Inr None None None)"
  by (simp add: build_query_def)

text \<open>
  Claim C6, amended: with neither a descriptor pair nor a literal query, \<open>build_query\<close>
  returns \<open>None\<close> and raises nothing; the missing query is met by \<open>query_to_df\<close>,
  which raises its error for an empty result before it reads the database.
\<close>

theorem build_query_nothing_supplied:
  "build_query unicode_escape None None None = Inr None
   \<and> query_to_df rds_sql_pull (self\<lparr>rds_query := None\<rparr>)
       = (Inl QueryEmptyError, self\<lparr>rds_query := None\<rparr>)"
  by (simp add: build_query_def query_to_df_def)

subsection \<open>The join of a single question\<close>

text \<open>
  Claim C3 says that the answer-header join of a \<open>SINGLE\<close> item starts from the alias
  declared in the source descriptor. The select list, the \<open>FROM\<close> clause, the filter and
  the ordering use the declared alias; the join is written with the alias \<open>app\<close>. For the
  source declared under the alias \<open>a\<close>, whose text has no escape sequence for the
  re-decoding to change, the query joins on \<open>app.id\<close>, an alias the query does not declare.
\<close>

theorem single_join_is_written_with_app:
  "build_query Inr (Some aliased_source) (Some [single_item]) None = Inr (Some
     (''SELECT\<newline>    a.application_number AS application_number,\<newline>    hotel_name.value AS x\<newline>''
      @ ''\<newline>FROM\<newline>    applications_application a\<newline>''
      @ ''\<newline>LEFT JOIN application_data_answer initial_join_answers ON app.id = initial_join_answers.application_id AND initial_join_answers.question_id = 10''
      @ ''\<newline>LEFT JOIN application_data_textboxanswer hotel_name ON initial_join_answers.id = hotel_name.answer_ptr_id\<newline>''
      @ ''\<newline> WHERE \<newline>    a.project_id = 34''
      @ ''\<newline> ORDER BY\<newline>a.id;''))"
  by (simp add: build_query_def assemble_query_def aliased_source_def single_item_def
      add_source_def join_step_def add_filter_def add_order_def dict_eq_def str_int_def
      str_nat.simps)

subsection \<open>The join of a repeating question\<close>

lemma add_joins_append:
  "add_joins index (xs @ ys) st =
     (case add_joins index xs st of
        Inl e \<Rightarrow> Inl e
      | Inr st' \<Rightarrow> add_joins (index + length xs) ys st')"
  by (induction xs arbitrary: index st) (auto split: sum.splits)

lemma join_step_count:
  "join_step index item (q, c) = Inr (q', c') \<Longrightarrow> c' = (if index = 0 then c else Suc c)"
  by (auto simp: join_step_def split: if_splits option.splits)

lemma join_step_extends:
  "join_step index item (q, c) = Inr (q', c') \<Longrightarrow> \<exists>suffix. q' = q @ suffix"
  by (auto simp: join_step_def split: if_splits option.splits)

lemma add_joins_extends:
  "add_joins index xs (q, c) = Inr (q', c') \<Longrightarrow> \<exists>suffix. q' = q @ suffix"
proof (induction xs arbitrary: index q c)
  case Nil
  then show ?case by simp
next
  case (Cons x xs)
  from Cons.prems obtain q1 c1 where s: "join_step index x (q, c) = Inr (q1, c1)"
    and r: "add_joins (Suc index) xs (q1, c1) = Inr (q', c')"
    by (auto split: sum.splits)
  from join_step_extends[OF s] obtain s1 where "q1 = q @ s1" by blast
  moreover from Cons.IH[OF r] obtain s2 where "q' = q1 @ s2" by blast
  ultimately show ?case by simp
qed

lemma add_joins_count:
  "add_joins index xs (q, c) = Inr (q', c') \<Longrightarrow>
     c' = (if index = 0 then c + (length xs - 1) else c + length xs)"
proof (induction xs arbitrary: index q c)
  case Nil
  then show ?case by simp
next
  case (Cons x xs)
  from Cons.prems obtain q1 c1 where s: "join_step index x (q, c) = Inr (q1, c1)"
    and r: "add_joins (Suc index) xs (q1, c1) = Inr (q', c')"
    by (auto split: sum.splits)
  from join_step_count[OF s] have "c1 = (if index = 0 then c else Suc c)" .
  moreover from Cons.IH[OF r] have "c' = c1 + length xs" by simp
  ultimately show ?case by auto
qed

lemma join_step_repeating:
  assumes "ji_single_or_repeat item = Some ''REPEATING''"
      and "ji_question_id item = Some qid" and "ji_data_source item = Some ds"
      and "ji_name item = Some name"
      and "index = 0 \<or> c = index"
  shows "join_step index item (q, c) =
           Inr (q @ repeating_header_join (bridge_alias index) qid
                  @ typed_answer_join (bridge_alias index) ds name,
                if index = 0 then c else Suc c)"
  using assms
  by (auto simp: join_step_def bridge_alias_def repeating_header_join_def typed_answer_join_def)

lemma add_filter_extends: "add_filter src q = Inr q' \<Longrightarrow> \<exists>suffix. q' = q @ suffix"
  by (auto simp: add_filter_def split: option.splits)

lemma add_order_extends: "add_order src q = Inr q' \<Longrightarrow> \<exists>suffix. q' = q @ suffix"
  by (auto simp: add_order_def split: option.splits)

lemma assemble_query_joins:
  assumes "assemble_query src join_list = Inr sql"
  shows "\<exists>q3 q4 c rest. add_joins 0 join_list (q3, 1) = Inr (q4, c) \<and> sql = q4 @ rest"
proof -
  from assms obtain q3 q4 c q5
    where j: "add_joins 0 join_list (q3, 1) = Inr (q4, c)"
      and f: "add_filter src q4 = Inr q5"
      and o: "add_order src q5 = Inr sql"
    unfolding assemble_query_def by (auto split: sum.splits option.splits prod.splits)
  from add_filter_extends[OF f] obtain r1 where "q5 = q4 @ r1" by blast
  moreover from add_order_extends[OF o] obtain r2 where "sql = q5 @ r2" by blast
  ultimately have "sql = q4 @ (r1 @ r2)" by simp
  with j show ?thesis by blast
qed

lemma repeating_round:
  assumes "i < length join_list"
      and "ji_single_or_repeat (join_list ! i) = Some ''REPEATING''"
      and "ji_question_id (join_list ! i) = Some qid"
      and "ji_data_source (join_list ! i) = Some ds"
      and "ji_name (join_list ! i) = Some name"
      and "add_joins 0 (take i join_list) (q, 1) = Inr (qi, ci)"
  shows "add_joins 0 (take (Suc i) join_list) (q, 1) =
           Inr (qi @ repeating_header_join (bridge_alias i) qid
                   @ typed_answer_join (bridge_alias i) ds name, Suc i)"
proof -
  have ci: "ci = (if i = 0 then 1 else i)"
    using add_joins_count[OF assms(6)] assms(1) by auto
  then have "i = 0 \<or> ci = i" by auto
  from join_step_repeating[OF assms(2-5) this]
  have step: "join_step i (join_list ! i) (qi, ci) =
                Inr (qi @ repeating_header_join (bridge_alias i) qid
                        @ typed_answer_join (bridge_alias i) ds name, Suc i)"
    using ci by auto
  have tk: "take (Suc i) join_list = take i join_list @ [join_list ! i]"
    using assms(1) by (simp add: take_Suc_conv_app_nth)
  have len: "length (take i join_list) = i"
    using assms(1) by simp
  show ?thesis
    unfolding tk add_joins_append using assms(6) step len by simp
qed

lemma join_step_bridge:
  assumes "complete_item item"
      and "ji_single_or_repeat item = Some ''SINGLE'' \<or> ji_single_or_repeat item = Some ''REPEATING''"
      and "index = 0 \<or> c = index"
  shows "\<exists>t. join_step index item (q, c) =
           Inr (q @ ''\<newline>LEFT JOIN application_data_answer '' @ bridge_alias index @ '' ON '' @ t,
                if index = 0 then c else Suc c)"
  using assms
  by (auto simp: join_step_def bridge_alias_def complete_item_def)

lemma bridged_round:
  assumes "j < length join_list"
      and "complete_item (join_list ! j)"
      and "ji_single_or_repeat (join_list ! j) = Some ''SINGLE''
           \<or> ji_single_or_repeat (join_list ! j) = Some ''REPEATING''"
      and "add_joins 0 (take j join_list) (q, 1) = Inr (qj, cj)"
  shows "\<exists>t. add_joins 0 (take (Suc j) join_list) (q, 1) =
           Inr (qj @ ''\<newline>LEFT JOIN application_data_answer '' @ bridge_alias j @ '' ON '' @ t,
                Suc j)"
proof -
  have cj: "cj = (if j = 0 then 1 else j)"
    using add_joins_count[OF assms(4)] assms(1) by auto
  then have "j = 0 \<or> cj = j" by auto
  from join_step_bridge[OF assms(2,3) this, of qj]
  obtain t where step: "join_step j (join_list ! j) (qj, cj) =
      Inr (qj @ ''\<newline>LEFT JOIN application_data_answer '' @ bridge_alias j @ '' ON '' @ t,
           if j = 0 then cj else Suc cj)"
    by blast
  have cnt: "(if j = 0 then cj else Suc cj) = Suc j" using cj by auto
  have tk: "take (Suc j) join_list = take j join_list @ [join_list ! j]"
    using assms(1) by (simp add: take_Suc_conv_app_nth)
  have len: "length (take j join_list) = j"
    using assms(1) by simp
  have "add_joins 0 (take (Suc j) join_list) (q, 1) =
          Inr (qj @ ''\<newline>LEFT JOIN application_data_answer '' @ bridge_alias j @ '' ON '' @ t,
               Suc j)"
    unfolding tk add_joins_append using assms(4) step len cnt by simp
  then show ?thesis by blast
qed

lemma add_source_items_ok:
  "src_name src \<noteq> None \<Longrightarrow> \<exists>q'. add_source_items src fm q = Inr q'"
  by (induction src fm q rule: add_source_items.induct) auto

lemma add_source_fields_ok:
  assumes "src_name src \<noteq> None"
  shows "\<exists>q'. add_source_fields src flds q = Inr q'"
proof (induction flds arbitrary: q)
  case Nil
  show ?case by simp
next
  case (Cons fm flds)
  from add_source_items_ok[OF assms] obtain q1 where "add_source_items src fm q = Inr q1"
    by blast
  with Cons.IH[of q1] show ?case by simp
qed

lemma add_join_items_ok:
  "ji_name item \<noteq> None \<Longrightarrow> \<exists>q'. add_join_items item final fm q = Inr q'"
  by (induction item final fm q rule: add_join_items.induct) auto

lemma add_item_fields_ok:
  assumes "ji_name item \<noteq> None"
  shows "\<exists>q'. add_item_fields index len item all_fields flds q = Inr q'"
proof (induction flds arbitrary: q)
  case Nil
  show ?case by simp
next
  case (Cons fm flds)
  from add_join_items_ok[OF assms]
  obtain q1 where "add_join_items item
      (int index = int len - 1 \<and> dict_eq fm (last all_fields)) fm q = Inr q1"
    by blast
  with Cons.IH[of q1] show ?case by simp
qed

lemma add_join_fields_ok:
  "\<forall>item\<in>set join_list. complete_item item \<Longrightarrow>
   \<exists>q'. add_join_fields index len join_list q = Inr q'"
proof (induction join_list arbitrary: index q)
  case Nil
  show ?case by simp
next
  case (Cons item join_list)
  from Cons.prems obtain flds where f: "ji_fields item = Some flds" and n: "ji_name item \<noteq> None"
    by (auto simp: complete_item_def)
  from add_item_fields_ok[OF n]
  obtain q1 where "add_item_fields index len item flds flds q = Inr q1" by blast
  moreover from Cons.IH[of "Suc index" q1] Cons.prems
  obtain q2 where "add_join_fields (Suc index) len join_list q1 = Inr q2" by auto
  ultimately show ?case using f by simp
qed

lemma join_step_ok:
  "complete_item item \<Longrightarrow> \<exists>st'. join_step index item st = Inr st'"
  by (cases st) (auto simp: join_step_def complete_item_def)

lemma add_joins_ok:
  "\<forall>item\<in>set join_list. complete_item item \<Longrightarrow> \<exists>st'. add_joins index join_list st = Inr st'"
proof (induction join_list arbitrary: index st)
  case Nil
  show ?case by simp
next
  case (Cons item join_list)
  from Cons.prems join_step_ok[of item index st]
  obtain st1 where "join_step index item st = Inr st1" by auto
  moreover from Cons.IH[of "Suc index" st1] Cons.prems
  obtain st2 where "add_joins (Suc index) join_list st1 = Inr st2" by auto
  ultimately show ?case by simp
qed

lemma assemble_query_ok:
  assumes "complete_source src" and "\<forall>item\<in>set join_list. complete_item item"
  shows "\<exists>sql. assemble_query src join_list = Inr sql"
proof -
  from assms(1) obtain table name flds project ord
    where s: "src_table src = Some table" "src_name src = Some name" "src_fields src = Some flds"
             "src_project src = Some project" "src_order src = Some ord"
    by (auto simp: complete_source_def)
  from add_source_fields_ok[of src flds "''SELECT\<newline>''"] s(2)
  obtain q1 where q1: "add_source_fields src flds ''SELECT\<newline>'' = Inr q1" by auto
  from add_join_fields_ok[OF assms(2), of 0 "length join_list" q1]
  obtain q2 where q2: "add_join_fields 0 (length join_list) join_list q1 = Inr q2" by blast
  obtain q3 where q3: "add_source src q2 = Inr q3"
    using s(1,2) by (simp add: add_source_def)
  from add_joins_ok[OF assms(2), of 0 "(q3, 1)"]
  obtain q4 c where q4: "add_joins 0 join_list (q3, 1) = Inr (q4, c)" by (metis surj_pair)
  obtain q5 where q5: "add_filter src q4 = Inr q5"
    using s(2,4) by (simp add: add_filter_def)
  obtain q6 where q6: "add_order src q5 = Inr q6"
    using s(2,5) by (simp add: add_order_def)
  show ?thesis
    unfolding assemble_query_def using s(3) q1 q2 q3 q4 q5 q6 by simp
qed

lemma assembled_query_holds_round:
  assumes "assemble_query src join_list = Inr sql"
      and "i < length join_list"
      and "ji_single_or_repeat (join_list ! i) = Some ''REPEATING''"
      and "ji_question_id (join_list ! i) = Some qid"
      and "ji_data_source (join_list ! i) = Some ds"
      and "ji_name (join_list ! i) = Some name"
  shows "\<exists>before rest. sql = before @ repeating_header_join (bridge_alias i) qid
                                @ typed_answer_join (bridge_alias i) ds name @ rest"
proof -
  from assemble_query_joins[OF assms(1)] obtain q3 q4 c tail
    where whole: "add_joins 0 join_list (q3, 1) = Inr (q4, c)" and sql: "sql = q4 @ tail"
    by blast
  have "add_joins 0 (take i join_list @ drop i join_list) (q3, 1) = Inr (q4, c)"
    using whole by simp
  then obtain qi ci where upto: "add_joins 0 (take i join_list) (q3, 1) = Inr (qi, ci)"
    unfolding add_joins_append by (auto split: sum.splits)
  from repeating_round[OF assms(2-6) upto]
  have round: "add_joins 0 (take (Suc i) join_list) (q3, 1) =
          Inr (qi @ repeating_header_join (bridge_alias i) qid
                  @ typed_answer_join (bridge_alias i) ds name, Suc i)" .
  have "add_joins 0 (take (Suc i) join_list @ drop (Suc i) join_list) (q3, 1) = Inr (q4, c)"
    using whole by simp
  then have "add_joins (0 + length (take (Suc i) join_list)) (drop (Suc i) join_list)
               (qi @ repeating_header_join (bridge_alias i) qid
                   @ typed_answer_join (bridge_alias i) ds name, Suc i) = Inr (q4, c)"
    unfolding add_joins_append round by simp
  from add_joins_extends[OF this] obtain suffix
    where "q4 = (qi @ repeating_header_join (bridge_alias i) qid
                   @ typed_answer_join (bridge_alias i) ds name) @ suffix"
    by blast
  then have "sql = qi @ repeating_header_join (bridge_alias i) qid
                      @ typed_answer_join (bridge_alias i) ds name @ (suffix @ tail)"
    using sql by simp
  then show ?thesis by blast
qed

text \<open>
  Claim C4 says that the predicate of a \<open>REPEATING\<close> item, at any position, goes through
  the bridge of the first join item and never through the bridge of the item before it.
  At the second position the item before is the first item: in the query compiled from
  the first two items of the repository's example, the second item is \<open>REPEATING\<close>, the
  item before it is joined under \<open>initial_join_answers\<close>, and the predicate of the second
  item starts from that same alias.
\<close>

theorem second_item_joins_through_its_predecessor:
  "ji_single_or_repeat (example_join_list ! 1) = Some ''REPEATING''
   \<and> build_query Inr (Some (fst (build_query_package 34 (take 2 example_join_list))))
       (Some (take 2 example_join_list)) None
     = Inr (Some
        (''SELECT\<newline>    app.application_number AS application_number,\<newline>    app.created_at AS created_at,\<newline>    hotel_name.value AS hotel_name,\<newline>    hotel_address.line1 AS hotel_address_line_1\<newline>    hotel_address.line2 AS hotel_address_line_2\<newline>    hotel_address.city AS hotel_city\<newline>    hotel_address.state AS hotel_state\<newline>    hotel_address.zip AS hotel_zip\<newline>''
         @ ''\<newline>FROM\<newline>    applications_application app\<newline>''
         @ ''\<newline>LEFT JOIN application_data_answer initial_join_answers ON app.id = initial_join_answers.application_id AND initial_join_answers.question_id = 1015''
         @ ''\<newline>LEFT JOIN application_data_textboxanswer hotel_name ON initial_join_answers.id = hotel_name.answer_ptr_id\<newline>''
         @ ''\<newline>LEFT JOIN application_data_answer join_answers_1 ON initial_join_answers.repeating_answer_section_id = join_answers_1.repeating_answer_section_id AND join_answers_1.question_id = 1016''
         @ ''\<newline>LEFT JOIN application_data_addressanswer hotel_address ON join_answers_1.id = hotel_address.answer_ptr_id\<newline>''
         @ ''\<newline> WHERE \<newline>    app.project_id = 34''
         @ ''\<newline> ORDER BY\<newline>app.id;''))"
  by (simp add: build_query_def assemble_query_def build_query_package_def example_join_list_def
      add_source_def join_step_def add_filter_def add_order_def dict_eq_def str_int_def
      str_nat.simps)

text \<open>
  Claim C4, amended: for a complete source descriptor and a join list of complete items,
  whose assembled text the final re-decoding leaves as it is, and a \<open>REPEATING\<close> item at
  any position \<open>i\<close> of the list, the query that \<open>build_query\<close> returns holds the
  answer-header join of the item with the predicate on the repeating section of the fixed
  alias \<open>initial_join_answers\<close>, the bridge of the first join item, followed by the typed
  answer join; the round of the loop for the item appends exactly that text. The item
  before, when it is \<open>SINGLE\<close> or \<open>REPEATING\<close>, is joined under the bridge of its own
  position: from the third position on that is a numbered alias, not the one the predicate
  starts from; at the second position it is \<open>initial_join_answers\<close> itself.
\<close>

theorem repeating_join_correlates_through_initial_bridge:
  assumes "complete_source src"
      and "\<forall>item\<in>set join_list. complete_item item"
      and "\<forall>sql. assemble_query src join_list = Inr sql \<longrightarrow> unicode_escape sql = Inr sql"
      and "i < length join_list"
      and "ji_single_or_repeat (join_list ! i) = Some ''REPEATING''"
      and "ji_question_id (join_list ! i) = Some qid"
      and "ji_data_source (join_list ! i) = Some ds"
      and "ji_name (join_list ! i) = Some name"
  shows "(\<exists>before rest.
            build_query unicode_escape (Some src) (Some join_list) None =
              Inr (Some (before @ repeating_header_join (bridge_alias i) qid
                                @ typed_answer_join (bridge_alias i) ds name @ rest)))
         \<and> (\<forall>q qi ci. add_joins 0 (take i join_list) (q, 1) = Inr (qi, ci) \<longrightarrow>
              add_joins 0 (take (Suc i) join_list) (q, 1) =
                Inr (qi @ repeating_header_join (bridge_alias i) qid
                        @ typed_answer_join (bridge_alias i) ds name, Suc i))
         \<and> (\<forall>q qp cp.
              0 < i
              \<and> (ji_single_or_repeat (join_list ! (i - 1)) = Some ''SINGLE''
                  \<or> ji_single_or_repeat (join_list ! (i - 1)) = Some ''REPEATING'')
              \<and> add_joins 0 (take (i - 1) join_list) (q, 1) = Inr (qp, cp) \<longrightarrow>
              (\<exists>t. add_joins 0 (take i join_list) (q, 1) =
                     Inr (qp @ ''\<newline>LEFT JOIN application_data_answer ''
                             @ bridge_alias (i - 1) @ '' ON '' @ t, i)))
         \<and> (i = 1 \<longrightarrow> bridge_alias (i - 1) = ''initial_join_answers'')
         \<and> (2 \<le> i \<longrightarrow> bridge_alias (i - 1) \<noteq> ''initial_join_answers'')"
proof (intro conjI allI impI)
  from assemble_query_ok[OF assms(1,2)] obtain sql
    where sql: "assemble_query src join_list = Inr sql" by blast
  then have dec: "unicode_escape sql = Inr sql" using assms(3) by blast
  have bq: "build_query unicode_escape (Some src) (Some join_list) None = Inr (Some sql)"
    using sql dec by (simp add: build_query_def)
  from assembled_query_holds_round[OF sql assms(4-8)] obtain before rest
    where "sql = before @ repeating_header_join (bridge_alias i) qid
                   @ typed_answer_join (bridge_alias i) ds name @ rest"
    by blast
  with bq show "\<exists>before rest.
            build_query unicode_escape (Some src) (Some join_list) None =
              Inr (Some (before @ repeating_header_join (bridge_alias i) qid
                                @ typed_answer_join (bridge_alias i) ds name @ rest))"
    by blast
next
  fix q qi ci
  assume "add_joins 0 (take i join_list) (q, 1) = Inr (qi, ci)"
  from repeating_round[OF assms(4-8) this]
  show "add_joins 0 (take (Suc i) join_list) (q, 1) =
          Inr (qi @ repeating_header_join (bridge_alias i) qid
                  @ typed_answer_join (bridge_alias i) ds name, Suc i)" .
next
  fix q qp cp
  assume a: "0 < i
              \<and> (ji_single_or_repeat (join_list ! (i - 1)) = Some ''SINGLE''
                  \<or> ji_single_or_repeat (join_list ! (i - 1)) = Some ''REPEATING'')
              \<and> add_joins 0 (take (i - 1) join_list) (q, 1) = Inr (qp, cp)"
  then have lt: "i - 1 < length join_list" using assms(4) by simp
  then have ci: "complete_item (join_list ! (i - 1))" using assms(2) by simp
  from a have kind: "ji_single_or_repeat (join_list ! (i - 1)) = Some ''SINGLE''
                  \<or> ji_single_or_repeat (join_list ! (i - 1)) = Some ''REPEATING''"
    and upto: "add_joins 0 (take (i - 1) join_list) (q, 1) = Inr (qp, cp)" by auto
  from a have suc: "Suc (i - 1) = i" by simp
  from bridged_round[OF lt ci kind upto]
  show "\<exists>t. add_joins 0 (take i join_list) (q, 1) =
                     Inr (qp @ ''\<newline>LEFT JOIN application_data_answer ''
                             @ bridge_alias (i - 1) @ '' ON '' @ t, i)"
    unfolding suc .
next
  assume "i = 1"
  then show "bridge_alias (i - 1) = ''initial_join_answers''"
    by (simp add: bridge_alias_def)
next
  assume "2 \<le> i"
  then show "bridge_alias (i - 1) \<noteq> ''initial_join_answers''"
    by (simp add: bridge_alias_def)
qed

theorem repeating_join_correlates_through_initial_bridge_witness:
  "\<exists>before rest.
     build_query Inr (Some (fst (build_query_package 34 example_join_list)))
       (Some example_join_list) None =
       Inr (Some (before
         @ ''\<newline>LEFT JOIN application_data_answer join_answers_2 ON initial_join_answers.repeating_answer_section_id = join_answers_2.repeating_answer_section_id AND join_answers_2.question_id = 1013''
         @ ''\<newline>LEFT JOIN application_data_singleselectanswer hotel_status ON join_answers_2.id = hotel_status.answer_ptr_id\<newline>''
         @ rest))"
proof -
  have src: "complete_source (fst (build_query_package 34 example_join_list))"
    by (simp add: complete_source_def build_query_package_def)
  have items: "\<forall>item\<in>set example_join_list. complete_item item"
    by (simp add: example_join_list_def complete_item_def)
  have dec: "\<forall>sql. assemble_query (fst (build_query_package 34 example_join_list))
               example_join_list = Inr sql \<longrightarrow> Inr sql = (Inr sql :: error + string)"
    by simp
  have len: "2 < length example_join_list"
    by (simp add: example_join_list_def)
  have item: "example_join_list ! 2 =
      \<lparr>ji_name = Some ''hotel_status'', ji_single_or_repeat = Some ''REPEATING'',
       ji_data_source = Some ''application_data_singleselectanswer'', ji_question_id = Some 1013,
       ji_fields = Some [[(''value'', ''hotel_status'')]]\<rparr>"
    by (simp add: example_join_list_def)
  have h: "repeating_header_join (bridge_alias 2) 1013 =
      ''\<newline>LEFT JOIN application_data_answer join_answers_2 ON initial_join_answers.repeating_answer_section_id = join_answers_2.repeating_answer_section_id AND join_answers_2.question_id = 1013''"
    by (simp add: bridge_alias_def repeating_header_join_def str_int_def str_nat.simps)
  have t: "typed_answer_join (bridge_alias 2) ''application_data_singleselectanswer'' ''hotel_status'' =
      ''\<newline>LEFT JOIN application_data_singleselectanswer hotel_status ON join_answers_2.id = hotel_status.answer_ptr_id\<newline>''"
    by (simp add: bridge_alias_def typed_answer_join_def str_nat.simps)
  from repeating_join_correlates_through_initial_bridge
         [of "fst (build_query_package 34 example_join_list)" example_join_list Inr 2 1013
            "''application_data_singleselectanswer''" "''hotel_status''",
          OF src items dec len]
       item
  have "\<exists>before rest.
     build_query Inr (Some (fst (build_query_package 34 example_join_list)))
       (Some example_join_list) None =
       Inr (Some (before
         @ repeating_header_join (bridge_alias 2) 1013
         @ typed_answer_join (bridge_alias 2) ''application_data_singleselectanswer'' ''hotel_status''
         @ rest))"
    by simp
  then show ?thesis unfolding h t .
qed

subsection \<open>The expected schema\<close>

lemma schema_add_items_eq: "schema_add_items fm acc = acc @ map snd fm"
  by (induction fm arbitrary: acc) auto

lemma schema_add_fields_eq: "schema_add_fields flds acc = acc @ output_names flds"
  by (induction flds arbitrary: acc) (auto simp: output_names_def schema_add_items_eq)

lemma schema_add_joins_eq:
  "\<forall>item\<in>set jl. ji_fields item \<noteq> None \<Longrightarrow>
   schema_add_joins jl acc = Inr (acc @ concat (map (\<lambda>item. output_names (the (ji_fields item))) jl))"
  by (induction jl arbitrary: acc) (auto simp: schema_add_fields_eq)

lemma length_output_names: "length (output_names flds) = sum_list (map length flds)"
  by (induction flds) (auto simp: output_names_def)

lemma length_declared_schema: "length (declared_schema src jl) = declared_count src jl"
  by (induction jl) (auto simp: declared_schema_def declared_count_def length_output_names)

text \<open>
  Claim C5: for a source descriptor and a join list whose \<open>fields\<close> are all present,
  \<open>build_schema\<close> without an explicit schema and without an exclusion list returns the
  declared output names of the source followed by those of the join items, in declaration
  order; the length of the list is the number of declared fields.
\<close>

theorem build_schema_is_declared_schema:
  assumes "src_fields src \<noteq> None" and "\<forall>item\<in>set join_list. ji_fields item \<noteq> None"
  shows "build_schema (Some src) (Some join_list) None None = Inr (declared_schema src join_list)
         \<and> length (declared_schema src join_list) = declared_count src join_list"
proof -
  have "build_schema (Some src) (Some join_list) None None = Inr (declared_schema src join_list)"
    using assms
    by (auto simp: build_schema_def declared_schema_def schema_add_joins_eq schema_add_fields_eq)
  then show ?thesis by (simp add: length_declared_schema)
qed

theorem build_schema_is_declared_schema_witness:
  "build_schema (Some (fst (build_query_package 34 example_join_list))) (Some example_join_list)
     None None
   = Inr [''application_number'', ''created_at'', ''hotel_name'', ''hotel_address_line_1'',
          ''hotel_address_line_2'', ''hotel_city'', ''hotel_state'', ''hotel_zip'',
          ''hotel_status'', ''license_in'', ''license_out'', ''total_in_household'',
          ''active_bookings'', ''pathway_determination'']
   \<and> declared_count (fst (build_query_package 34 example_join_list)) example_join_list = 14"
  using build_schema_is_declared_schema
          [of "fst (build_query_package 34 example_join_list)" example_join_list]
  by (simp add: build_query_package_def example_join_list_def declared_schema_def
      output_names_def declared_count_def)

section \<open>Properties of validation and deduplication\<close>

subsection \<open>Validation\<close>

lemma check_fields_eq:
  "check_fields cols schema (check, fm) =
     (check \<and> set schema \<subseteq> set cols, fm @ filter (\<lambda>f. f \<notin> set cols) schema)"
  by (induction schema arbitrary: check fm) auto

text \<open>
  Claim C10: validation looks for the expected columns only. For a table that is not empty
  and has every column of the schema, \<open>check_schema\<close> returns true whatever other columns
  the table has and in whatever order, and the object, with its record of missing fields,
  is as it was.
\<close>

theorem check_schema_superset:
  assumes "\<not> df_empty df" and "rds_schema self = Some schema" and "set schema \<subseteq> set (columns df)"
  shows "check_schema self df = (Inr True, self)"
proof -
  have "filter (\<lambda>f. f \<notin> set (columns df)) schema = []"
    using assms(3) by (auto simp: filter_empty_conv)
  then show ?thesis
    using assms by (simp add: check_schema_def check_fields_eq)
qed

theorem check_schema_superset_witness:
  "check_schema
     \<lparr>rds_query = Some ''SELECT 1;'', rds_schema = Some [''hotel_name'', ''application_number''],
      rds_duplicates = \<lparr>columns = [], rows = []\<rparr>, rds_archive = [],
      rds_fields_missing = [], rds_df = \<lparr>columns = [], rows = []\<rparr>\<rparr>
     \<lparr>columns = [''application_number'', ''extra'', ''hotel_name''],
      rows = [[''A-1'', ''e'', ''Inn'']]\<rparr>
   = (Inr True,
      \<lparr>rds_query = Some ''SELECT 1;'', rds_schema = Some [''hotel_name'', ''application_number''],
       rds_duplicates = \<lparr>columns = [], rows = []\<rparr>, rds_archive = [],
       rds_fields_missing = [], rds_df = \<lparr>columns = [], rows = []\<rparr>\<rparr>)"
  using check_schema_superset
          [of "\<lparr>columns = [''application_number'', ''extra'', ''hotel_name''],
                rows = [[''A-1'', ''e'', ''Inn'']]\<rparr>"
              "\<lparr>rds_query = Some ''SELECT 1;'',
                rds_schema = Some [''hotel_name'', ''application_number''],
                rds_duplicates = \<lparr>columns = [], rows = []\<rparr>, rds_archive = [],
                rds_fields_missing = [], rds_df = \<lparr>columns = [], rows = []\<rparr>\<rparr>"
              "[''hotel_name'', ''application_number'']"]
  by (simp add: df_empty_def)

text \<open>
  Claim C9: for a table that is not empty and lacks exactly one column \<open>c\<close> of the schema,
  and an object whose record of missing fields is empty, \<open>check_schema\<close> returns false and
  records \<open>c\<close> and nothing else: once for each time the schema names it, so exactly the
  list \<open>[c]\<close> when the schema names no column twice.
\<close>

theorem check_schema_one_missing:
  assumes "\<not> df_empty df" and "rds_schema self = Some schema" and "rds_fields_missing self = []"
      and "c \<in> set schema" and "c \<notin> set (columns df)"
      and "\<forall>f\<in>set schema. f \<noteq> c \<longrightarrow> f \<in> set (columns df)"
  shows "check_schema self df = (Inr False, self\<lparr>rds_fields_missing := filter (\<lambda>f. f = c) schema\<rparr>)
         \<and> set (filter (\<lambda>f. f = c) schema) = {c}
         \<and> (distinct schema \<longrightarrow> filter (\<lambda>f. f = c) schema = [c])"
proof -
  have eq: "filter (\<lambda>f. f \<notin> set (columns df)) schema = filter (\<lambda>f. f = c) schema"
    using assms(5,6) by (intro filter_cong) auto
  have sub: "\<not> set schema \<subseteq> set (columns df)"
    using assms(4,5) by auto
  have one: "check_schema self df = (Inr False, self\<lparr>rds_fields_missing := filter (\<lambda>f. f = c) schema\<rparr>)"
    using assms(1,2,3) sub by (simp add: check_schema_def check_fields_eq eq)
  have two: "set (filter (\<lambda>f. f = c) schema) = {c}"
    using assms(4) by auto
  have three: "distinct schema \<longrightarrow> filter (\<lambda>f. f = c) schema = [c]"
    using assms(4) by (induction schema) (auto simp: filter_empty_conv)
  show ?thesis using one two three by blast
qed

theorem check_schema_one_missing_witness:
  "check_schema
     \<lparr>rds_query = Some ''SELECT 1;'', rds_schema = Some [''application_number'', ''hotel_name''],
      rds_duplicates = \<lparr>columns = [], rows = []\<rparr>, rds_archive = [],
      rds_fields_missing = [], rds_df = \<lparr>columns = [], rows = []\<rparr>\<rparr>
     \<lparr>columns = [''application_number''], rows = [[''A-1'']]\<rparr>
   = (Inr False,
      \<lparr>rds_query = Some ''SELECT 1;'', rds_schema = Some [''application_number'', ''hotel_name''],
       rds_duplicates = \<lparr>columns = [], rows = []\<rparr>, rds_archive = [],
       rds_fields_missing = [''hotel_name''], rds_df = \<lparr>columns = [], rows = []\<rparr>\<rparr>)"
  using check_schema_one_missing
          [of "\<lparr>columns = [''application_number''], rows = [[''A-1'']]\<rparr>"
              "\<lparr>rds_query = Some ''SELECT 1;'',
                rds_schema = Some [''application_number'', ''hotel_name''],
                rds_duplicates = \<lparr>columns = [], rows = []\<rparr>, rds_archive = [],
                rds_fields_missing = [], rds_df = \<lparr>columns = [], rows = []\<rparr>\<rparr>"
              "[''application_number'', ''hotel_name'']" "''hotel_name''"]
  by (simp add: df_empty_def)

subsection \<open>Deduplication\<close>

text \<open>
  \<open>query_to_df\<close> reads the duplicates from the table that \<open>drop_duplicates()\<close> has
  already replaced, in which no row repeats an earlier one: the table it stores as the
  duplicates never has a row.
\<close>

lemma dedup_props:
  "distinct (map fst (filter snd (zip rs (map Not (duplicated_from seen rs)))))
   \<and> set (map fst (filter snd (zip rs (map Not (duplicated_from seen rs))))) \<inter> set seen = {}
   \<and> set (map fst (filter snd (zip rs (map Not (duplicated_from seen rs))))) \<subseteq> set rs"
proof (induction rs arbitrary: seen)
  case Nil
  then show ?case by simp
next
  case (Cons r rs)
  from Cons.IH[of "seen @ [r]"] show ?case by auto
qed

lemma duplicated_distinct:
  "distinct rs \<Longrightarrow> set rs \<inter> set seen = {} \<Longrightarrow> duplicated_from seen rs = map (\<lambda>_. False) rs"
  by (induction rs arbitrary: seen) auto

lemma no_marks: "map fst (filter snd (zip rs (map (\<lambda>_. False) rs))) = []"
  by (induction rs) auto

lemma duplicates_of_deduplicated:
  "rows (select_rows (drop_duplicates t) (duplicated (drop_duplicates t))) = []"
proof -
  let ?rs = "rows (drop_duplicates t)"
  have "distinct ?rs" "set ?rs \<inter> set [] = {}"
    using dedup_props[of "rows t" "[]"] by (simp_all add: drop_duplicates_def select_rows_def duplicated_def)
  then have "duplicated (drop_duplicates t) = map (\<lambda>_. False) ?rs"
    unfolding duplicated_def by (rule duplicated_distinct)
  then show ?thesis by (simp add: select_rows_def no_marks)
qed

text \<open>
  Claim C1 says that the rows removed by the deduplication are collected, in order, into
  the duplicates table. For a table of two equal rows that passes validation,
  \<open>query_to_df\<close> keeps the first row and removes the second, and the duplicates table it
  stores, and puts in the archive package, is empty: the removed row is lost.
\<close>

theorem query_to_df_stores_no_duplicates:
  "query_to_df (\<lambda>q. Inr \<lparr>columns = [''a''], rows = [[1::nat], [1]]\<rparr>)
     \<lparr>rds_query = Some ''q'', rds_schema = Some [''a''],
      rds_duplicates = \<lparr>columns = [], rows = []\<rparr>, rds_archive = [],
      rds_fields_missing = [], rds_df = \<lparr>columns = [], rows = []\<rparr>\<rparr>
   = (Inr \<lparr>columns = [''a''], rows = [[1]]\<rparr>,
      \<lparr>rds_query = Some ''q'', rds_schema = Some [''a''],
       rds_duplicates = \<lparr>columns = [''a''], rows = []\<rparr>,
       rds_archive = [(''Duplicates'', \<lparr>columns = [''a''], rows = []\<rparr>),
                      (''Data'', \<lparr>columns = [''a''], rows = [[1]]\<rparr>)],
       rds_fields_missing = [], rds_df = \<lparr>columns = [''a''], rows = [[1]]\<rparr>\<rparr>)"
  by (simp add: query_to_df_def check_schema_def df_empty_def drop_duplicates_def
      duplicated_def select_rows_def Let_def)

section \<open>Properties of the archive rotation\<close>

subsection \<open>The steps of the loop\<close>

lemma min_from_snd: "snd (min_from best xs) = Min (snd ` set (best # xs))"
proof (induction xs arbitrary: best)
  case Nil
  then show ?case by simp
next
  case (Cons x xs)
  let ?b = "if snd x < snd best then x else best"
  have b: "snd ?b = min (snd x) (snd best)"
    by (simp add: min_def)
  have "snd (min_from best (x # xs)) = Min (insert (snd ?b) (snd ` set xs))"
    using Cons.IH[of ?b] by simp
  also have "\<dots> = Min (insert (snd best) (insert (snd x) (snd ` set xs)))"
  proof (cases "xs = []")
    case True
    then show ?thesis unfolding b by (simp add: min.commute)
  next
    case False
    then have ne: "snd ` set xs \<noteq> {}" by simp
    have f: "finite (snd ` set xs)" by simp
    have "Min (insert (snd best) (insert (snd x) (snd ` set xs)))
          = min (snd best) (min (snd x) (Min (snd ` set xs)))"
      using f ne by simp
    moreover have "Min (insert (snd ?b) (snd ` set xs)) = min (snd ?b) (Min (snd ` set xs))"
      using f ne by (rule Min_insert)
    ultimately show ?thesis unfolding b by (simp add: min.assoc min.commute min.left_commute)
  qed
  finally show ?case by simp
qed

lemma py_min_oldest:
  "objs \<noteq> [] \<Longrightarrow> \<exists>x. py_min objs = Inr x \<and> snd x = Min (snd ` set objs)"
  by (cases objs) (auto simp: py_min_def min_from_snd simp del: set_simps)

lemma collect_folder_dates_eq:
  "\<forall>key\<in>set fs. \<exists>objs. Contents (list_objects_v2 s3 st key None) = Some objs \<and> objs \<noteq> [] \<Longrightarrow>
   collect_folder_dates s3 st fs acc = Inr (acc @ map (\<lambda>key. (key, oldest_time s3 st key)) fs)"
proof (induction fs arbitrary: acc)
  case Nil
  then show ?case by simp
next
  case (Cons key fs)
  from Cons.prems obtain objs where o: "Contents (list_objects_v2 s3 st key None) = Some objs" "objs \<noteq> []"
    by auto
  from py_min_oldest[OF o(2)] obtain x where x: "py_min objs = Inr x" "snd x = Min (snd ` set objs)"
    by blast
  have "oldest_time s3 st key = snd x"
    by (simp add: oldest_time_def o x)
  then show ?case
    using Cons.IH[of "acc @ [(key, snd x)]"] Cons.prems o x by simp
qed

lemma sort_key_head:
  assumes "sort_key snd xs = y # ys"
  shows "y \<in> set xs \<and> (\<forall>x\<in>set xs. snd y \<le> snd x)"
proof -
  have s: "set (y # ys) = set xs"
    using assms set_sort[of snd xs] by simp
  have "sorted (map snd (y # ys))"
    using assms sorted_sort_key[of snd xs] by simp
  then have "\<forall>z\<in>set ys. snd y \<le> snd z" by simp
  then have "\<forall>x\<in>set (y # ys). snd y \<le> snd x" by simp
  then show ?thesis using s by auto
qed

lemma earliest_first_cong:
  "\<forall>f\<in>set fs. age f = age' f \<Longrightarrow> earliest_first age fs dl = earliest_first age' fs dl"
proof (induction dl arbitrary: fs)
  case Nil
  then show ?case by simp
next
  case (Cons key dl)
  have "\<forall>f\<in>set (remove1 key fs). age f = age' f"
    using Cons.prems set_remove1_subset[of key fs] by blast
  from Cons.IH[OF this] Cons.prems show ?case by auto
qed


lemma filter_not_in_Cons:
  "distinct fs \<Longrightarrow> filter (\<lambda>f. f \<notin> set (key # dl)) fs = filter (\<lambda>f. f \<notin> set dl) (remove1 key fs)"
  by (auto simp: distinct_remove1_removeAll removeAll_filter_not_eq intro: filter_cong)

lemma clean_loop_reflecting:
  assumes R: "reflects_deletions s3 folder_prefix limit I"
      and lim: "0 \<le> limit"
  shows "I st \<Longrightarrow>
         CommonPrefixes (list_objects_v2 s3 st folder_prefix (Some ''/'')) = Some fs \<Longrightarrow>
         int (length fs) = limit + int k \<Longrightarrow>
         \<exists>out st' dl.
           clean_loop s3 folder_prefix limit fs ic st deleted = (out, st', deleted @ dl)
           \<and> length dl = min k (max_iterations - ic)
           \<and> earliest_first (oldest_time s3 st) fs dl
           \<and> (max_iterations - ic < k \<longrightarrow> out = Inl StuckInLoopError)
           \<and> (k \<le> max_iterations - ic \<and> 1 \<le> limit \<longrightarrow> out = Inr ())"
proof (induction k arbitrary: st fs ic deleted)
  case 0
  then have "\<not> limit < int (length fs)" by simp
  then have "clean_loop s3 folder_prefix limit fs ic st deleted = (Inr (), st, deleted)"
    by (subst clean_loop.simps) simp
  then show ?case by simp
next
  case (Suc k)
  have over: "limit < int (length fs)" using Suc.prems(3) by simp
  show ?case
  proof (cases "ic + 1 > max_iterations")
    case True
    then have "clean_loop s3 folder_prefix limit fs ic st deleted = (Inl StuckInLoopError, st, deleted)"
      using over by (subst clean_loop.simps) simp
    moreover have "max_iterations - ic = 0" using True by simp
    ultimately show ?thesis by simp
  next
    case False
    from R Suc.prems(1,2) have d: "distinct fs"
      and c: "\<forall>key\<in>set fs. \<exists>objs. Contents (list_objects_v2 s3 st key None) = Some objs \<and> objs \<noteq> []"
      and del: "\<forall>key\<in>set fs. \<exists>st'.
                   delete_object s3 st key = Some st'
                   \<and> (remove1 key fs \<noteq> [] \<longrightarrow>
                        I st'
                        \<and> CommonPrefixes (list_objects_v2 s3 st' folder_prefix (Some ''/''))
                            = Some (remove1 key fs)
                        \<and> (\<forall>other\<in>set fs. other \<noteq> key \<longrightarrow>
                              Contents (list_objects_v2 s3 st' other None)
                              = Contents (list_objects_v2 s3 st other None)))
                   \<and> (remove1 key fs = [] \<longrightarrow>
                        CommonPrefixes (list_objects_v2 s3 st' folder_prefix (Some ''/'')) = None
                        \<or> CommonPrefixes (list_objects_v2 s3 st' folder_prefix (Some ''/''))
                            = Some [])"
      using over unfolding reflects_deletions_def by fastforce+
    let ?fd = "map (\<lambda>key. (key, oldest_time s3 st key)) fs"
    have fd: "collect_folder_dates s3 st fs [] = Inr ?fd"
      using collect_folder_dates_eq[OF c, of "[]"] by simp
    have "fs \<noteq> []" using over lim by auto
    then have "sort_key snd ?fd \<noteq> []"
      by (metis length_0_conv length_map length_sort)
    then obtain oldest rest where srt: "sort_key snd ?fd = oldest # rest"
      by (cases "sort_key snd ?fd") auto
    from sort_key_head[OF srt] have o1: "oldest \<in> set ?fd"
      and o2: "\<forall>x\<in>set ?fd. snd oldest \<le> snd x" by auto
    from o1 have kin: "fst oldest \<in> set fs" and ot: "snd oldest = oldest_time s3 st (fst oldest)"
      by auto
    from o2 ot have least: "\<forall>other\<in>set fs. oldest_time s3 st (fst oldest) \<le> oldest_time s3 st other"
      by auto
    from del kin obtain st1 where dl: "delete_object s3 st (fst oldest) = Some st1"
      and more: "remove1 (fst oldest) fs \<noteq> [] \<longrightarrow>
                   I st1
                   \<and> CommonPrefixes (list_objects_v2 s3 st1 folder_prefix (Some ''/''))
                       = Some (remove1 (fst oldest) fs)
                   \<and> (\<forall>other\<in>set fs. other \<noteq> fst oldest \<longrightarrow>
                         Contents (list_objects_v2 s3 st1 other None)
                         = Contents (list_objects_v2 s3 st other None))"
      and none: "remove1 (fst oldest) fs = [] \<longrightarrow>
                   CommonPrefixes (list_objects_v2 s3 st1 folder_prefix (Some ''/'')) = None
                   \<or> CommonPrefixes (list_objects_v2 s3 st1 folder_prefix (Some ''/'')) = Some []"
      by blast
    have pos: "1 \<le> length fs" using kin by (cases fs) auto
    have "length (remove1 (fst oldest) fs) = length fs - 1"
      using kin by (simp add: length_remove1)
    then have len: "int (length (remove1 (fst oldest) fs)) = limit + int k"
      using Suc.prems(3) pos by (simp add: of_nat_diff)
    have small: "Suc k \<le> max_iterations - ic \<longleftrightarrow> k \<le> max_iterations - (ic + 1)"
      using False by auto
    show ?thesis
    proof (cases "remove1 (fst oldest) fs = []")
      case True
      then have k0: "k = 0" and l0: "limit = 0" using len lim by auto
      from none True consider
          (absent) "CommonPrefixes (list_objects_v2 s3 st1 folder_prefix (Some ''/'')) = None"
        | (empty) "CommonPrefixes (list_objects_v2 s3 st1 folder_prefix (Some ''/'')) = Some []"
        by auto
      then obtain out where res: "clean_loop s3 folder_prefix limit fs ic st deleted
                                   = (out, st1, deleted @ [fst oldest])"
      proof cases
        case absent
        have "clean_loop s3 folder_prefix limit fs ic st deleted
                = (Inl KeyError, st1, deleted @ [fst oldest])"
          using over False fd srt dl absent by (subst clean_loop.simps) simp
        then show ?thesis using that by blast
      next
        case empty
        have "clean_loop s3 folder_prefix limit fs ic st deleted
                = clean_loop s3 folder_prefix limit [] (ic + 1) st1 (deleted @ [fst oldest])"
          using over False fd srt dl empty by (subst clean_loop.simps) simp
        also have "\<dots> = (Inr (), st1, deleted @ [fst oldest])"
          using lim by (subst clean_loop.simps) simp
        finally show ?thesis using that by blast
      qed
      have l2: "length [fst oldest] = min (Suc k) (max_iterations - ic)"
        using k0 False by auto
      have ef2: "earliest_first (oldest_time s3 st) fs [fst oldest]"
        using kin least by simp
      have st: "\<not> max_iterations - ic < Suc k" using k0 False by auto
      have "\<not> 1 \<le> limit" using l0 by simp
      with res l2 ef2 st show ?thesis by blast
    next
      case False
      with more have I1: "I st1"
        and cp: "CommonPrefixes (list_objects_v2 s3 st1 folder_prefix (Some ''/''))
                  = Some (remove1 (fst oldest) fs)"
        and same: "\<forall>other\<in>set fs. other \<noteq> fst oldest \<longrightarrow>
                     Contents (list_objects_v2 s3 st1 other None)
                     = Contents (list_objects_v2 s3 st other None)"
        by auto
      from Suc.IH[OF I1 cp len, of "ic + 1" "deleted @ [fst oldest]"]
      obtain out st' dl' where
        r: "clean_loop s3 folder_prefix limit (remove1 (fst oldest) fs) (ic + 1) st1
              (deleted @ [fst oldest]) = (out, st', (deleted @ [fst oldest]) @ dl')"
        and l: "length dl' = min k (max_iterations - (ic + 1))"
        and ef: "earliest_first (oldest_time s3 st1) (remove1 (fst oldest) fs) dl'"
        and stuck: "max_iterations - (ic + 1) < k \<longrightarrow> out = Inl StuckInLoopError"
        and fine: "k \<le> max_iterations - (ic + 1) \<and> 1 \<le> limit \<longrightarrow> out = Inr ()"
        by blast
      have unfold: "clean_loop s3 folder_prefix limit fs ic st deleted
            = clean_loop s3 folder_prefix limit (remove1 (fst oldest) fs) (ic + 1) st1
                (deleted @ [fst oldest])"
        using over \<open>\<not> max_iterations < ic + 1\<close> fd srt dl cp by (subst clean_loop.simps) simp
      have ages: "\<forall>f\<in>set (remove1 (fst oldest) fs). oldest_time s3 st1 f = oldest_time s3 st f"
        using same d by (auto simp: oldest_time_def)
      have ef0: "earliest_first (oldest_time s3 st) (remove1 (fst oldest) fs) dl'"
        using ef earliest_first_cong[OF ages] by simp
      have res: "clean_loop s3 folder_prefix limit fs ic st deleted
                  = (out, st', deleted @ (fst oldest # dl'))"
        unfolding unfold r by simp
      have l2: "length (fst oldest # dl') = min (Suc k) (max_iterations - ic)"
        using l \<open>\<not> max_iterations < ic + 1\<close> by auto
      have ef2: "earliest_first (oldest_time s3 st) fs (fst oldest # dl')"
        using kin least ef0 by simp
      have stuck2: "max_iterations - ic < Suc k \<longrightarrow> out = Inl StuckInLoopError"
        using stuck small by auto
      have fine2: "Suc k \<le> max_iterations - ic \<and> 1 \<le> limit \<longrightarrow> out = Inr ()"
        using fine small by auto
      show ?thesis using res l2 ef2 stuck2 fine2 by blast
    qed
  qed
qed

lemma clean_loop_never_drops:
  assumes N: "never_drops s3 folder_prefix limit I"
  shows "I st \<Longrightarrow>
         CommonPrefixes (list_objects_v2 s3 st folder_prefix (Some ''/'')) = Some fs \<Longrightarrow>
         n = max_iterations - ic \<Longrightarrow>
         \<exists>st' dl.
           clean_loop s3 folder_prefix limit fs ic st deleted = (Inl StuckInLoopError, st', deleted @ dl)
           \<and> length dl = max_iterations - ic"
proof (induction n arbitrary: st fs ic deleted)
  case 0
  from N 0(1,2) have over: "limit < int (length fs)"
    unfolding never_drops_def by fastforce
  have "clean_loop s3 folder_prefix limit fs ic st deleted = (Inl StuckInLoopError, st, deleted)"
    using over 0(3) by (subst clean_loop.simps) simp
  then show ?case using 0(3) by simp
next
  case (Suc n)
  from N Suc.prems(1,2) have over: "limit < int (length fs)" and ne: "fs \<noteq> []"
      and c: "\<forall>key\<in>set fs. \<exists>objs. Contents (list_objects_v2 s3 st key None) = Some objs \<and> objs \<noteq> []"
      and del: "\<forall>key\<in>set fs. \<exists>st'. delete_object s3 st key = Some st' \<and> I st'"
    unfolding never_drops_def by fastforce+
  have small: "\<not> ic + 1 > max_iterations" using Suc.prems(3) by simp
  let ?fd = "map (\<lambda>key. (key, oldest_time s3 st key)) fs"
  have fd: "collect_folder_dates s3 st fs [] = Inr ?fd"
    using collect_folder_dates_eq[OF c, of "[]"] by simp
  have "sort_key snd ?fd \<noteq> []"
    using ne by (metis length_0_conv length_map length_sort)
  then obtain oldest rest where srt: "sort_key snd ?fd = oldest # rest"
    by (cases "sort_key snd ?fd") auto
  from sort_key_head[OF srt] have kin: "fst oldest \<in> set fs" by auto
  from del kin obtain st1 where dl: "delete_object s3 st (fst oldest) = Some st1" and I1: "I st1"
    by blast
  from N I1 obtain fs1 where cp: "CommonPrefixes (list_objects_v2 s3 st1 folder_prefix (Some ''/'')) = Some fs1"
    unfolding never_drops_def by fastforce
  have n: "n = max_iterations - (ic + 1)" using Suc.prems(3) by simp
  from Suc.IH[OF I1 cp n, of "deleted @ [fst oldest]"]
  obtain st' dl' where
    r: "clean_loop s3 folder_prefix limit fs1 (ic + 1) st1 (deleted @ [fst oldest])
         = (Inl StuckInLoopError, st', (deleted @ [fst oldest]) @ dl')"
    and l: "length dl' = max_iterations - (ic + 1)"
    by blast
  have unfold: "clean_loop s3 folder_prefix limit fs ic st deleted
        = clean_loop s3 folder_prefix limit fs1 (ic + 1) st1 (deleted @ [fst oldest])"
    using over small fd srt dl cp by (subst clean_loop.simps) simp
  have "clean_loop s3 folder_prefix limit fs ic st deleted
        = (Inl StuckInLoopError, st', deleted @ (fst oldest # dl'))"
    unfolding unfold r by simp
  moreover have "length (fst oldest # dl') = max_iterations - ic"
    using l small by simp
  ultimately show ?case by blast
qed

lemma clean_loop_bounded:
  "length (snd (snd (clean_loop s3 folder_prefix limit fs ic st deleted)))
     \<le> length deleted + (max_iterations - ic)"
proof (induction s3 folder_prefix limit fs ic st deleted rule: clean_loop.induct)
  case (1 s3 folder_prefix limit subfolders iteration_counter st deleted)
  show ?case
  proof (cases "limit < int (length subfolders) \<and> \<not> iteration_counter + 1 > max_iterations")
    case False
    then show ?thesis by (subst clean_loop.simps) auto
  next
    case True
    then have over: "limit < int (length subfolders)"
      and small: "\<not> iteration_counter + 1 > max_iterations" by auto
    show ?thesis
    proof (cases "collect_folder_dates s3 st subfolders []")
      case (Inl e)
      then show ?thesis using over small by (subst clean_loop.simps) simp
    next
      case (Inr folder_dates)
      show ?thesis
      proof (cases "sort_key snd folder_dates")
        case Nil
        then show ?thesis using over small Inr by (subst clean_loop.simps) simp
      next
        case (Cons oldest rest)
        show ?thesis
        proof (cases "delete_object s3 st (fst oldest)")
          case None
          then show ?thesis using over small Inr Cons by (subst clean_loop.simps) simp
        next
          case st1: (Some st1)
          show ?thesis
          proof (cases "CommonPrefixes (list_objects_v2 s3 st1 folder_prefix (Some ''/''))")
            case None
            then show ?thesis using over small Inr Cons st1 by (subst clean_loop.simps) simp
          next
            case (Some fs1)
            have "length (snd (snd (clean_loop s3 folder_prefix limit fs1 (iteration_counter + 1) st1
                     (deleted @ [fst oldest]))))
                  \<le> length (deleted @ [fst oldest]) + (max_iterations - (iteration_counter + 1))"
              using "1.IH"[OF over small Inr Cons st1 Some] .
            moreover have "clean_loop s3 folder_prefix limit subfolders iteration_counter st deleted
                  = clean_loop s3 folder_prefix limit fs1 (iteration_counter + 1) st1
                      (deleted @ [fst oldest])"
              using over small Inr Cons st1 Some by (subst clean_loop.simps) simp
            ultimately show ?thesis using small by simp
          qed
        qed
      qed
    qed
  qed
qed

subsection \<open>The two stores\<close>

lemma map_of_filter_other:
  "other \<noteq> key \<Longrightarrow> map_of (filter (\<lambda>f. fst f \<noteq> key) st) other = map_of st other"
  by (induction st) auto

lemma folder_store_reflects:
  "reflects_deletions folder_store folder_prefix limit well_formed_folders"
  unfolding reflects_deletions_def
proof (intro allI impI)
  fix st :: folders
  assume wf: "well_formed_folders st"
  then have ne: "st \<noteq> []" and d: "distinct (map fst st)" and full: "\<forall>f\<in>set st. snd f \<noteq> []"
    by (auto simp: well_formed_folders_def)
  have cp: "CommonPrefixes (list_objects_v2 folder_store st folder_prefix (Some ''/'')) = Some (map fst st)"
    using ne by (simp add: folder_store_def)
  have cont: "\<forall>key\<in>set (map fst st). \<exists>objs.
                 Contents (list_objects_v2 folder_store st key None) = Some objs \<and> objs \<noteq> []"
  proof
    fix key assume "key \<in> set (map fst st)"
    then obtain objs where m: "(key, objs) \<in> set st" by auto
    then have "map_of st key = Some objs" using d by simp
    moreover have "objs \<noteq> []" using m full by auto
    ultimately show "\<exists>objs. Contents (list_objects_v2 folder_store st key None) = Some objs \<and> objs \<noteq> []"
      by (simp add: folder_store_def)
  qed
  have del: "\<forall>key\<in>set (map fst st). \<exists>st'.
               delete_object folder_store st key = Some st'
               \<and> (remove1 key (map fst st) \<noteq> [] \<longrightarrow>
                    well_formed_folders st'
                    \<and> CommonPrefixes (list_objects_v2 folder_store st' folder_prefix (Some ''/''))
                        = Some (remove1 key (map fst st))
                    \<and> (\<forall>other\<in>set (map fst st). other \<noteq> key \<longrightarrow>
                          Contents (list_objects_v2 folder_store st' other None)
                          = Contents (list_objects_v2 folder_store st other None)))
               \<and> (remove1 key (map fst st) = [] \<longrightarrow>
                    CommonPrefixes (list_objects_v2 folder_store st' folder_prefix (Some ''/'')) = None
                    \<or> CommonPrefixes (list_objects_v2 folder_store st' folder_prefix (Some ''/''))
                        = Some [])"
  proof
    fix key assume kin: "key \<in> set (map fst st)"
    let ?st' = "filter (\<lambda>f. fst f \<noteq> key) st"
    have keys: "map fst ?st' = remove1 key (map fst st)"
      using d by (simp add: distinct_remove1_removeAll removeAll_filter_not_eq filter_map comp_def
          cong: filter_cong) (metis (mono_tags, lifting) filter_cong)
    have dl: "delete_object folder_store st key = Some ?st'"
      by (simp add: folder_store_def)
    have more: "well_formed_folders ?st'
                \<and> CommonPrefixes (list_objects_v2 folder_store ?st' folder_prefix (Some ''/''))
                    = Some (remove1 key (map fst st))
                \<and> (\<forall>other\<in>set (map fst st). other \<noteq> key \<longrightarrow>
                      Contents (list_objects_v2 folder_store ?st' other None)
                      = Contents (list_objects_v2 folder_store st other None))"
      if rem: "remove1 key (map fst st) \<noteq> []"
    proof -
      have ne': "?st' \<noteq> []" using rem keys by auto
      have wf': "well_formed_folders ?st'"
        using ne' d full by (auto simp: well_formed_folders_def distinct_map_filter)
      have cp': "CommonPrefixes (list_objects_v2 folder_store ?st' folder_prefix (Some ''/''))
                  = Some (remove1 key (map fst st))"
        using ne' keys by (simp add: folder_store_def)
      have same: "\<forall>other\<in>set (map fst st). other \<noteq> key \<longrightarrow>
                       Contents (list_objects_v2 folder_store ?st' other None)
                       = Contents (list_objects_v2 folder_store st other None)"
        by (simp add: folder_store_def map_of_filter_other)
      show ?thesis using wf' cp' same by blast
    qed
    have none: "CommonPrefixes (list_objects_v2 folder_store ?st' folder_prefix (Some ''/'')) = None"
      if rem: "remove1 key (map fst st) = []"
    proof -
      have "?st' = []" using rem keys by auto
      then show ?thesis by (simp add: folder_store_def)
    qed
    show "\<exists>st'.
               delete_object folder_store st key = Some st'
               \<and> (remove1 key (map fst st) \<noteq> [] \<longrightarrow>
                    well_formed_folders st'
                    \<and> CommonPrefixes (list_objects_v2 folder_store st' folder_prefix (Some ''/''))
                        = Some (remove1 key (map fst st))
                    \<and> (\<forall>other\<in>set (map fst st). other \<noteq> key \<longrightarrow>
                          Contents (list_objects_v2 folder_store st' other None)
                          = Contents (list_objects_v2 folder_store st other None)))
               \<and> (remove1 key (map fst st) = [] \<longrightarrow>
                    CommonPrefixes (list_objects_v2 folder_store st' folder_prefix (Some ''/'')) = None
                    \<or> CommonPrefixes (list_objects_v2 folder_store st' folder_prefix (Some ''/''))
                        = Some [])"
      using dl more none by blast
  qed
  show "\<exists>subfolders.
           CommonPrefixes (list_objects_v2 folder_store st folder_prefix (Some ''/'')) = Some subfolders
           \<and> distinct subfolders
           \<and> (\<forall>key\<in>set subfolders. \<exists>objs.
                 Contents (list_objects_v2 folder_store st key None) = Some objs \<and> objs \<noteq> [])
           \<and> (limit < int (length subfolders) \<longrightarrow>
                (\<forall>key\<in>set subfolders. \<exists>st'.
                   delete_object folder_store st key = Some st'
                   \<and> (remove1 key subfolders \<noteq> [] \<longrightarrow>
                        well_formed_folders st'
                        \<and> CommonPrefixes (list_objects_v2 folder_store st' folder_prefix (Some ''/''))
                            = Some (remove1 key subfolders)
                        \<and> (\<forall>other\<in>set subfolders. other \<noteq> key \<longrightarrow>
                              Contents (list_objects_v2 folder_store st' other None)
                              = Contents (list_objects_v2 folder_store st other None)))
                   \<and> (remove1 key subfolders = [] \<longrightarrow>
                        CommonPrefixes (list_objects_v2 folder_store st' folder_prefix (Some ''/'')) = None
                        \<or> CommonPrefixes (list_objects_v2 folder_store st' folder_prefix (Some ''/''))
                            = Some [])))"
    using cp d cont del by blast
qed

lemma archive_of_well_formed: "0 < n \<Longrightarrow> well_formed_folders (archive_of n)"
  by (auto simp: well_formed_folders_def archive_of_def distinct_map comp_def inj_on_def)

lemma stale_store_never_drops: "never_drops stale_store folder_prefix 1 (\<lambda>st. True)"
  by (simp add: never_drops_def stale_store_def)

lemma monitor_reflecting:
  assumes "reflects_deletions s3 (project_folder @ archive_folder) limit I"
      and "0 \<le> limit" and "I st"
      and "CommonPrefixes (list_objects_v2 s3 st (project_folder @ archive_folder) (Some ''/'')) = Some fs"
      and "int (length fs) = limit + int k"
  shows "\<exists>out st' dl.
           monitor_and_maintain_archive_limit s3 project_folder archive_folder limit st
             = (out, st', dl)
           \<and> length dl = min k max_iterations
           \<and> earliest_first (oldest_time s3 st) fs dl
           \<and> (max_iterations < k \<longrightarrow> out = Inl StuckInLoopError)
           \<and> (k \<le> max_iterations \<and> 1 \<le> limit \<longrightarrow> out = Inr ())"
  using clean_loop_reflecting[OF assms(1,2,3,4,5), of 0 "[]"] assms(4)
  by (auto simp: monitor_and_maintain_archive_limit_def)

subsection \<open>Rotation above the limit\<close>

text \<open>
  Claim C7 says that a rotation over \<open>limit + k\<close> sub-folders performs exactly \<open>k\<close>
  deletions, for every \<open>k\<close>. The loop stops at its bound of 150 rounds: on an archive of
  152 sub-folders with one object each and the limit 1, so that \<open>k\<close> is 151, in a store
  that reflects every deletion, the rotation deletes 150 sub-folders and raises.
\<close>

theorem rotation_stops_at_bound_counterexample:
  "int (length (archive_of 152)) = 1 + int 151
   \<and> fst (monitor_and_maintain_archive_limit folder_store ''project/'' ''archive/'' 1 (archive_of 152))
       = Inl StuckInLoopError
   \<and> length (snd (snd (monitor_and_maintain_archive_limit folder_store ''project/'' ''archive/'' 1
        (archive_of 152)))) = 150"
proof -
  have r: "reflects_deletions folder_store (''project/'' @ ''archive/'') 1 well_formed_folders"
    by (rule folder_store_reflects)
  have w: "well_formed_folders (archive_of 152)"
    by (rule archive_of_well_formed) simp
  have n: "archive_of 152 \<noteq> []" using w by (simp add: well_formed_folders_def)
  have c: "CommonPrefixes (list_objects_v2 folder_store (archive_of 152) (''project/'' @ ''archive/'')
             (Some ''/'')) = Some (map fst (archive_of 152))"
    using n by (simp add: folder_store_def)
  have l: "int (length (map fst (archive_of 152))) = 1 + int 151"
    by (simp add: archive_of_def)
  from monitor_reflecting[OF r _ w c l]
  show ?thesis using l by (auto simp: max_iterations_def)
qed

text \<open>
  Claim C7, amended: for every archive state with \<open>limit + k\<close> sub-folders under the
  prefix, where the limit is not negative, every sub-folder is non-empty and the store
  reflects each deletion in the next listing, one rotation performs exactly \<open>k\<close> deletions
  when \<open>k\<close> is at most 150, the bound of the loop, and exactly 150 deletions followed by the
  error of the stuck loop when \<open>k\<close> is above 150; each deletion removes a sub-folder whose
  oldest object is the earliest among the sub-folders that remain at that step.
\<close>

theorem rotation_deletes_oldest_first:
  assumes "reflects_deletions s3 (project_folder @ archive_folder) limit I"
      and "I st"
      and "CommonPrefixes (list_objects_v2 s3 st (project_folder @ archive_folder) (Some ''/''))
             = Some subfolders"
      and "int (length subfolders) = limit + int k"
      and "0 \<le> limit"
  shows "length (snd (snd (monitor_and_maintain_archive_limit s3 project_folder archive_folder
                             limit st)))
           = (if k \<le> max_iterations then k else max_iterations)
         \<and> earliest_first (oldest_time s3 st) subfolders
             (snd (snd (monitor_and_maintain_archive_limit s3 project_folder archive_folder
                          limit st)))
         \<and> (max_iterations < k \<longrightarrow>
              fst (monitor_and_maintain_archive_limit s3 project_folder archive_folder limit st)
                = Inl StuckInLoopError)"
  using monitor_reflecting[OF assms(1) assms(5) assms(2) assms(3) assms(4)]
  by (auto simp: min_def)

theorem rotation_deletes_oldest_first_witness:
  "length (snd (snd (monitor_and_maintain_archive_limit folder_store ''project/'' ''archive/'' 2
       [(''c/'', [(''c/Duplicates.csv'', 30)]), (''a/'', [(''a/Duplicates.csv'', 10)]),
        (''b/'', [(''b/Duplicates.csv'', 20)])]))) = 1
   \<and> earliest_first
        (oldest_time folder_store
           [(''c/'', [(''c/Duplicates.csv'', 30)]), (''a/'', [(''a/Duplicates.csv'', 10)]),
            (''b/'', [(''b/Duplicates.csv'', 20)])])
        [''c/'', ''a/'', ''b/'']
        (snd (snd (monitor_and_maintain_archive_limit folder_store ''project/'' ''archive/'' 2
           [(''c/'', [(''c/Duplicates.csv'', 30)]), (''a/'', [(''a/Duplicates.csv'', 10)]),
            (''b/'', [(''b/Duplicates.csv'', 20)])])))
   \<and> snd (snd (monitor_and_maintain_archive_limit folder_store ''project/'' ''archive/'' 2
       [(''c/'', [(''c/Duplicates.csv'', 30)]), (''a/'', [(''a/Duplicates.csv'', 10)]),
        (''b/'', [(''b/Duplicates.csv'', 20)])])) = [''a/'']"
proof -
  have r: "reflects_deletions folder_store (''project/'' @ ''archive/'') 2 well_formed_folders"
    by (rule folder_store_reflects)
  have w: "well_formed_folders [(''c/'', [(''c/Duplicates.csv'', 30)]),
        (''a/'', [(''a/Duplicates.csv'', 10)]), (''b/'', [(''b/Duplicates.csv'', 20)])]"
    by (simp add: well_formed_folders_def)
  have c: "CommonPrefixes (list_objects_v2 folder_store
          [(''c/'', [(''c/Duplicates.csv'', 30)]), (''a/'', [(''a/Duplicates.csv'', 10)]),
           (''b/'', [(''b/Duplicates.csv'', 20)])] (''project/'' @ ''archive/'') (Some ''/''))
        = Some [''c/'', ''a/'', ''b/'']"
    by (simp add: folder_store_def)
  have l: "int (length [''c/'', ''a/'', ''b/'']) = 2 + int 1" by simp
  have v: "snd (snd (monitor_and_maintain_archive_limit folder_store ''project/'' ''archive/'' 2
       [(''c/'', [(''c/Duplicates.csv'', 30)]), (''a/'', [(''a/Duplicates.csv'', 10)]),
        (''b/'', [(''b/Duplicates.csv'', 20)])])) = [''a/'']"
    by (simp add: monitor_and_maintain_archive_limit_def folder_store_def clean_loop.simps
        py_min_def max_iterations_def)
  from rotation_deletes_oldest_first[OF r w c l] v
  show ?thesis by (simp add: max_iterations_def)
qed

subsection \<open>The bound of the loop\<close>

text \<open>
  Claim C8: the loop is bounded by 150 rounds. Whatever the store does, one rotation
  passes at most 150 keys to \<open>delete_object\<close>; and in a store whose listing never drops to
  the limit, it raises the error of the stuck loop after exactly 150 deletions.
\<close>

theorem rotation_loop_is_bounded:
  "length (snd (snd (monitor_and_maintain_archive_limit s3 project_folder archive_folder limit st)))
     \<le> max_iterations
   \<and> (never_drops s3 (project_folder @ archive_folder) limit I \<and> I st \<longrightarrow>
        (\<exists>st' deleted.
           monitor_and_maintain_archive_limit s3 project_folder archive_folder limit st
             = (Inl StuckInLoopError, st', deleted)
           \<and> length deleted = max_iterations))"
proof
  show "length (snd (snd (monitor_and_maintain_archive_limit s3 project_folder archive_folder limit st)))
     \<le> max_iterations"
    using clean_loop_bounded[of s3 "project_folder @ archive_folder" limit _ 0 st "[]"]
    by (auto simp: monitor_and_maintain_archive_limit_def Let_def split: option.splits)
next
  show "never_drops s3 (project_folder @ archive_folder) limit I \<and> I st \<longrightarrow>
        (\<exists>st' deleted.
           monitor_and_maintain_archive_limit s3 project_folder archive_folder limit st
             = (Inl StuckInLoopError, st', deleted)
           \<and> length deleted = max_iterations)"
  proof
    assume a: "never_drops s3 (project_folder @ archive_folder) limit I \<and> I st"
    then obtain fs where cp:
      "CommonPrefixes (list_objects_v2 s3 st (project_folder @ archive_folder) (Some ''/'')) = Some fs"
      unfolding never_drops_def by fastforce
    from clean_loop_never_drops[of s3 "project_folder @ archive_folder" limit I st fs max_iterations 0 "[]"] a cp
    show "\<exists>st' deleted.
           monitor_and_maintain_archive_limit s3 project_folder archive_folder limit st
             = (Inl StuckInLoopError, st', deleted)
           \<and> length deleted = max_iterations"
      by (auto simp: monitor_and_maintain_archive_limit_def)
  qed
qed

theorem rotation_loop_is_bounded_witness:
  "never_drops stale_store (''project/'' @ ''archive/'') 1 (\<lambda>st. True)
   \<and> (\<exists>st' deleted.
        monitor_and_maintain_archive_limit stale_store ''project/'' ''archive/'' 1 0
          = (Inl StuckInLoopError, st', deleted)
        \<and> length deleted = max_iterations)"
  using rotation_loop_is_bounded[of stale_store "''project/''" "''archive/''" 1 0 "\<lambda>st. True"]
    stale_store_never_drops[of "''project/'' @ ''archive/''"]
  by blast


end
